theory Spec2Isabelle
  imports Main "HOL-Library.Word" "HOL-Library.Signed_Division"
begin

unbundle bit_operations_syntax

section \<open>Octets and protocol constants\<close>

type_synonym byte = "8 word"

text \<open>Frame encoding octets.\<close>

abbreviation ZPAD :: byte where "ZPAD \<equiv> 0x2a"
abbreviation ZDLE :: byte where "ZDLE \<equiv> 0x18"
abbreviation ZBIN :: byte where "ZBIN \<equiv> 0x41"
abbreviation ZHEX :: byte where "ZHEX \<equiv> 0x42"
abbreviation ZBIN32 :: byte where "ZBIN32 \<equiv> 0x43"
abbreviation ZBINR32 :: byte where "ZBINR32 \<equiv> 0x44"
abbreviation ZVBIN :: byte where "ZVBIN \<equiv> 0x61"
abbreviation ZVHEX :: byte where "ZVHEX \<equiv> 0x62"
abbreviation ZVBIN32 :: byte where "ZVBIN32 \<equiv> 0x63"
abbreviation ZVBINR32 :: byte where "ZVBINR32 \<equiv> 0x64"

text \<open>Frame types used by the modelled code.\<close>

abbreviation ZACK :: byte where "ZACK \<equiv> 0x03"
abbreviation ZFIN :: byte where "ZFIN \<equiv> 0x08"
abbreviation ZRPOS :: byte where "ZRPOS \<equiv> 0x09"
abbreviation ZDATA :: byte where "ZDATA \<equiv> 0x0a"

text \<open>Subpacket end types and the two rub-out escapes.\<close>

abbreviation ZCRCE :: byte where "ZCRCE \<equiv> 0x68"
abbreviation ZCRCG :: byte where "ZCRCG \<equiv> 0x69"
abbreviation ZCRCQ :: byte where "ZCRCQ \<equiv> 0x6a"
abbreviation ZCRCW :: byte where "ZCRCW \<equiv> 0x6b"
abbreviation ZRUB0 :: byte where "ZRUB0 \<equiv> 0x6c"
abbreviation ZRUB1 :: byte where "ZRUB1 \<equiv> 0x6d"

abbreviation XON :: byte where "XON \<equiv> 0x11"
abbreviation XOFF :: byte where "XOFF \<equiv> 0x13"
abbreviation CAN :: byte where "CAN \<equiv> 0x18"

text \<open>
  Escape table values (the source's octet constants 0, 1 and 2; a zeroed table entry
  is \<open>escSend\<close>).
\<close>

datatype escClass = escSend | escMust | escIfAtCR

text \<open>\<^verbatim>\<open>EscapeMode\<close>, which octets the writer escapes.\<close>

datatype EscapeMode = EscapeStandard | EscapeAll | EscapeMinimal

section \<open>Errors\<close>

text \<open>
  Every error return of the modelled functions is a value of this type. \<open>ErrRead\<close> is
  the transport's own read error (end of stream, or an expired read deadline);
  \<open>Wrap\<close> is \<^verbatim>\<open>fmt.Errorf("...: %w", err)\<close>.
\<close>

datatype error =
    ErrRead
  | ErrAbortReceived
  | ErrGarbageOverflow
  | ErrUnsupportedEnc byte
  | ErrInvalidHex byte byte
  | ErrHexHeaderCRC byte
  | ErrExpectedCR byte
  | ErrExpectedLF byte
  | ErrFrameEndInHeader
  | ErrFrameEndInCRC
  | ErrBinHeaderCRC byte
  | ErrFrameEndInSubpacketCRC
  | ErrFrameEndInSubpacketCRC32
  | ErrSubpacketCRC
  | ErrSubpacketCRC32
  | ErrSubpacketTooLong int
  | ErrFileWrite
  | ErrNotSeekable
  | ErrSeek
  | ErrNilPointer
  | ErrMissingNul
  | Wrap string error

section \<open>Frame headers\<close>

text \<open>The Go array \<^verbatim>\<open>[4]byte\<close>: exactly four octets, indexed 0..3.\<close>

record Data4 =
  d0 :: byte
  d1 :: byte
  d2 :: byte
  d3 :: byte

record Header =
  Encoding :: byte
  Type :: byte
  Data :: Data4

text \<open>\<^verbatim>\<open>binary.LittleEndian.Uint32\<close> and \<^verbatim>\<open>PutUint32\<close> over four octets.\<close>

definition le_uint32 :: "Data4 \<Rightarrow> 32 word" where
  "le_uint32 d =
     ucast (d0 d) OR push_bit 8 (ucast (d1 d)) OR push_bit 16 (ucast (d2 d))
       OR push_bit 24 (ucast (d3 d))"

definition le_put_uint32 :: "32 word \<Rightarrow> Data4" where
  "le_put_uint32 v =
     \<lparr>d0 = ucast v, d1 = ucast (drop_bit 8 v), d2 = ucast (drop_bit 16 v),
      d3 = ucast (drop_bit 24 v)\<rparr>"

text \<open>
  \<^verbatim>\<open>Position\<close> widens the unsigned 32-bit value to \<^verbatim>\<open>int64\<close>, so it is never
  negative; \<^verbatim>\<open>SetPosition\<close> truncates its \<^verbatim>\<open>int64\<close> argument to 32 bits.
\<close>

definition Position :: "Header \<Rightarrow> int" where
  "Position h = uint (le_uint32 (Data h))"

definition SetPosition :: "int \<Rightarrow> Header \<Rightarrow> Header" where
  "SetPosition pos h = h\<lparr>Data := le_put_uint32 (word_of_int pos)\<rparr>"

definition ZF0 :: "Header \<Rightarrow> byte" where "ZF0 h = d3 (Data h)"
definition ZF1 :: "Header \<Rightarrow> byte" where "ZF1 h = d2 (Data h)"
definition ZF2 :: "Header \<Rightarrow> byte" where "ZF2 h = d1 (Data h)"
definition ZF3 :: "Header \<Rightarrow> byte" where "ZF3 h = d0 (Data h)"

text \<open>\<^verbatim>\<open>Header{Type: frameType}\<close>: the other fields are zero.\<close>

definition makeHeader :: "byte \<Rightarrow> Header" where
  "makeHeader frameType =
     \<lparr>Encoding = 0, Type = frameType, Data = \<lparr>d0 = 0, d1 = 0, d2 = 0, d3 = 0\<rparr>\<rparr>"

definition makePosHeader :: "byte \<Rightarrow> int \<Rightarrow> Header" where
  "makePosHeader frameType pos = SetPosition pos (makeHeader frameType)"

text \<open>The five-octet header payload \<^verbatim>\<open>type || data[0..3]\<close>.\<close>

definition headerPayload :: "Header \<Rightarrow> byte list" where
  "headerPayload hdr =
     [Type hdr, d0 (Data hdr), d1 (Data hdr), d2 (Data hdr), d3 (Data hdr)]"

section \<open>Escape table\<close>

text \<open>
  \<^verbatim>\<open>buildEscapeTable\<close>: the 256-entry array is a function on octets. The loop runs
  \<open>i\<close> over 0..31 and looks at entries \<open>i\<close> and \<open>i | 0x80\<close>.
\<close>

definition escapeAllStep :: "byte \<Rightarrow> (byte \<Rightarrow> escClass) \<Rightarrow> (byte \<Rightarrow> escClass)" where
  "escapeAllStep i t =
     (let t1 = (if t i = escSend then t(i := escMust) else t)
      in if t1 (i OR 0x80) = escSend then t1(i OR 0x80 := escMust) else t1)"

definition buildEscapeTable :: "bool \<Rightarrow> (byte \<Rightarrow> escClass)" where
  "buildEscapeTable escapeAll =
     (let t = (\<lambda>_. escSend)
            (ZDLE := escMust, 0x10 := escMust, XON := escMust, XOFF := escMust,
             0x90 := escMust, 0x91 := escMust, 0x93 := escMust, 0x98 := escMust,
             0x0d := escIfAtCR, 0x8d := escIfAtCR)
      in if escapeAll then fold escapeAllStep (map of_nat [0..<32]) t else t)"

text \<open>
  Modelled from the spec: \<^verbatim>\<open>buildEscapeTable\<close> for an \<^verbatim>\<open>EscapeMode\<close>. The function
  above takes the flag \<^verbatim>\<open>escapeAll\<close>; \<^verbatim>\<open>NewSession\<close>, \<^verbatim>\<open>setEscapeMode\<close> and the tests
  pass an \<^verbatim>\<open>EscapeMode\<close>. \<^verbatim>\<open>EscapeStandard\<close> and \<^verbatim>\<open>EscapeAll\<close> are the two values of the
  flag. "In EscapeMinimal (DirZap) mode, only ZDLE is escaped": ZDLE is must-escape
  and every other octet is sent as it is, which is what
  \<^verbatim>\<open>TestBuildEscapeTableMinimal\<close> requires of all 256 entries.
\<close>

definition escapeTableFor :: "EscapeMode \<Rightarrow> (byte \<Rightarrow> escClass)" where
  "escapeTableFor mode =
     (case mode of
        EscapeStandard \<Rightarrow> buildEscapeTable False
      | EscapeAll \<Rightarrow> buildEscapeTable True
      | EscapeMinimal \<Rightarrow> (\<lambda>_. escSend)(ZDLE := escMust))"

definition escapeRequired :: "(byte \<Rightarrow> escClass) \<Rightarrow> byte \<Rightarrow> byte \<Rightarrow> bool" where
  "escapeRequired t b lastSent =
     (if t b = escMust then True
      else if t b = escIfAtCR then lastSent = 0x40 \<or> lastSent = 0xc0
      else False)"

definition escapeByte :: "byte \<Rightarrow> byte \<times> byte" where
  "escapeByte b = (ZDLE, b XOR 0x40)"

section \<open>Transport writer\<close>

text \<open>
  The writer buffers into a \<^verbatim>\<open>bufio.Writer\<close> over the transport. The transport is
  modelled as an in-memory octet sequence that accepts every write, so \<open>out\<close> is the
  sequence of octets handed to it, in order, and the writer's error results are
  always nil: the functions below return the updated writer.
\<close>

record transportWriter =
  out :: "byte list"
  table :: "byte \<Rightarrow> escClass"
  lastSent :: byte
  escapeAll :: bool

definition newTransportWriter :: "bool \<Rightarrow> transportWriter" where
  "newTransportWriter ea =
     \<lparr>out = [], table = buildEscapeTable ea, lastSent = 0, escapeAll = ea\<rparr>"

definition setEscapeAll :: "bool \<Rightarrow> transportWriter \<Rightarrow> transportWriter" where
  "setEscapeAll ea tw = tw\<lparr>escapeAll := ea, table := buildEscapeTable ea\<rparr>"

text \<open>
  The same two functions as the session calls them, with an \<^verbatim>\<open>EscapeMode\<close>:
  \<^verbatim>\<open>newTransportWriter(transport, c.EscapeMode)\<close> and \<^verbatim>\<open>setEscapeMode\<close>.
\<close>

definition newTransportWriterMode :: "EscapeMode \<Rightarrow> transportWriter" where
  "newTransportWriterMode mode =
     \<lparr>out = [], table = escapeTableFor mode, lastSent = 0, escapeAll = (mode = EscapeAll)\<rparr>"

definition setEscapeMode :: "EscapeMode \<Rightarrow> transportWriter \<Rightarrow> transportWriter" where
  "setEscapeMode mode tw = tw\<lparr>escapeAll := (mode = EscapeAll), table := escapeTableFor mode\<rparr>"

definition writeRaw :: "byte list \<Rightarrow> transportWriter \<Rightarrow> transportWriter" where
  "writeRaw data tw =
     (let tw1 = tw\<lparr>out := out tw @ data\<rparr>
      in if 0 < length data then tw1\<lparr>lastSent := last data\<rparr> else tw1)"

definition writeByte :: "byte \<Rightarrow> transportWriter \<Rightarrow> transportWriter" where
  "writeByte b tw = tw\<lparr>out := out tw @ [b], lastSent := b\<rparr>"

definition writeEscapedByte :: "byte \<Rightarrow> transportWriter \<Rightarrow> transportWriter" where
  "writeEscapedByte b tw =
     (if escapeRequired (table tw) b (lastSent tw)
      then (case escapeByte b of
              (esc1, esc2) \<Rightarrow> tw\<lparr>out := out tw @ [esc1, esc2], lastSent := esc2\<rparr>)
      else tw\<lparr>out := out tw @ [b], lastSent := b\<rparr>)"

fun writeEscaped :: "byte list \<Rightarrow> transportWriter \<Rightarrow> transportWriter" where
  "writeEscaped [] tw = tw"
| "writeEscaped (b # bs) tw = writeEscaped bs (writeEscapedByte b tw)"

text \<open>\<^verbatim>\<open>writeHex\<close> writes through the buffer directly and leaves \<open>lastSent\<close> alone.\<close>

definition hexDigits :: "byte list" where
  "hexDigits = [0x30, 0x31, 0x32, 0x33, 0x34, 0x35, 0x36, 0x37, 0x38, 0x39,
                0x61, 0x62, 0x63, 0x64, 0x65, 0x66]"

definition writeHex :: "byte \<Rightarrow> transportWriter \<Rightarrow> transportWriter" where
  "writeHex b tw =
     tw\<lparr>out := out tw @ [hexDigits ! unat (drop_bit 4 b), hexDigits ! unat (b AND 0x0f)]\<rparr>"

section \<open>CRC codec\<close>

text \<open>
  Modelled from the spec: the repository's CRC helpers (\<^verbatim>\<open>crc16Update\<close>,
  \<^verbatim>\<open>crc16Finalize\<close>, \<^verbatim>\<open>crc16Calc\<close>, \<^verbatim>\<open>crc16Verify\<close>, \<^verbatim>\<open>crc32Update\<close>,
  \<^verbatim>\<open>crc32Calc\<close>, \<^verbatim>\<open>crc32Verify\<close>) are called by the frame codec but their file is
  not among the sources. The spec gives: CRC-16/XMODEM, polynomial 0x1021, initial
  value 0, table driven, with a finalization step that updates with two zero octets
  and yields a CRC that verifies to zero when the payload is followed by the CRC
  octets; CRC-32/IEEE, reflected polynomial 0xEDB88320, initial value and final XOR
  0xFFFFFFFF, incremental as Go's \<^verbatim>\<open>crc32.Update\<close>; \<open>verify32\<close> succeeds when the CRC-32
  of the payload equals the received little-endian CRC.
\<close>

definition crc16Shift :: "16 word \<Rightarrow> 16 word" where
  "crc16Shift c = (if c AND 0x8000 = 0 then push_bit 1 c else push_bit 1 c XOR 0x1021)"

definition crc16Table :: "byte \<Rightarrow> 16 word" where
  "crc16Table b =
     crc16Shift (crc16Shift (crc16Shift (crc16Shift (crc16Shift (crc16Shift (crc16Shift
       (crc16Shift (push_bit 8 (ucast b)))))))))"

definition crc16Step :: "byte \<Rightarrow> 16 word \<Rightarrow> 16 word" where
  "crc16Step b crc = crc16Table (ucast (drop_bit 8 crc)) XOR push_bit 8 crc XOR ucast b"

definition crc16Update :: "16 word \<Rightarrow> byte list \<Rightarrow> 16 word" where
  "crc16Update crc data = fold crc16Step data crc"

definition crc16Finalize :: "16 word \<Rightarrow> 16 word" where
  "crc16Finalize crc = crc16Update crc [0, 0]"

definition crc16Calc :: "byte list \<Rightarrow> 16 word" where
  "crc16Calc data = crc16Finalize (crc16Update 0 data)"

definition crc16Verify :: "byte list \<Rightarrow> bool" where
  "crc16Verify data = (crc16Update 0 data = 0)"

definition crc32Shift :: "32 word \<Rightarrow> 32 word" where
  "crc32Shift c = (if c AND 1 = 0 then drop_bit 1 c else drop_bit 1 c XOR 0xEDB88320)"

definition crc32Table :: "byte \<Rightarrow> 32 word" where
  "crc32Table b =
     crc32Shift (crc32Shift (crc32Shift (crc32Shift (crc32Shift (crc32Shift (crc32Shift
       (crc32Shift (ucast b))))))))"

definition crc32Step :: "byte \<Rightarrow> 32 word \<Rightarrow> 32 word" where
  "crc32Step b crc = crc32Table (ucast crc XOR b) XOR drop_bit 8 crc"

definition crc32Update :: "32 word \<Rightarrow> byte list \<Rightarrow> 32 word" where
  "crc32Update crc data = fold crc32Step data (crc XOR 0xFFFFFFFF) XOR 0xFFFFFFFF"

definition crc32Calc :: "byte list \<Rightarrow> 32 word" where
  "crc32Calc data = crc32Update 0 data"

definition le_bytes32 :: "32 word \<Rightarrow> byte list" where
  "le_bytes32 v = [ucast v, ucast (drop_bit 8 v), ucast (drop_bit 16 v), ucast (drop_bit 24 v)]"

definition le_word32 :: "byte list \<Rightarrow> 32 word" where
  "le_word32 bs =
     ucast (bs ! 0) OR push_bit 8 (ucast (bs ! 1)) OR push_bit 16 (ucast (bs ! 2))
       OR push_bit 24 (ucast (bs ! 3))"

definition crc32Verify :: "byte list \<Rightarrow> bool" where
  "crc32Verify data =
     (4 \<le> length data \<and>
      crc32Calc (take (length data - 4) data) = le_word32 (drop (length data - 4) data))"

section \<open>Transport reader\<close>

text \<open>
  The reader wraps the transport in a \<^verbatim>\<open>bufio.Reader\<close>. The transport is modelled as
  the finite sequence \<open>inp\<close> of octets it still delivers, all of them available to the
  buffer; a read beyond them fails with \<open>ErrRead\<close> (end of stream, or an expired
  deadline). \<^verbatim>\<open>Buffered()\<close> is therefore \<open>length inp\<close>: the model arms the
  deadline only on a read that finds no octet left, whereas over a transport
  that delivers its octets in several pieces the code also arms it before each
  refill of the buffer. \<open>ds\<close> says whether the
  transport has \<^verbatim>\<open>SetReadDeadline\<close>, and \<open>deadlineCalls\<close> counts the calls made to
  it. The reader is mutated through a pointer, so every function returns the
  reader it leaves behind, also when it fails. The logger is not modelled.

  \<^verbatim>\<open>NewSession\<close> and the tests call \<^verbatim>\<open>newTransportReader\<close> with one more argument than
  the constructor of \<^verbatim>\<open>reader.go\<close> takes: a flag after the timeout, which \<^verbatim>\<open>NewSession\<close>
  sets to \<^verbatim>\<open>c.EscapeMode != EscapeMinimal\<close> and the tests to \<^verbatim>\<open>true\<close>. It is the field
  \<open>stripXonXoff\<close>: \<open>readByteStrip\<close> drops XON and XOFF when it is set, as
  \<^verbatim>\<open>reader.go\<close> does always, and returns them like any other octet when it is not
  (a writer in \<^verbatim>\<open>EscapeMinimal\<close> sends them unescaped).
\<close>

record transportReader =
  inp :: "byte list"
  ds :: bool
  timeout :: int
  deadlineCalls :: nat
  garbageCount :: nat
  garbageMax :: int
  canCount :: nat
  stripXonXoff :: bool

type_synonym 'a rd = "transportReader \<Rightarrow> (error + 'a) \<times> transportReader"

definition newTransportReader ::
    "byte list \<Rightarrow> bool \<Rightarrow> int \<Rightarrow> int \<Rightarrow> bool \<Rightarrow> transportReader" where
  "newTransportReader r hasDeadline gmax tmo strip =
     \<lparr>inp = r, ds = hasDeadline, timeout = tmo, deadlineCalls = 0,
      garbageCount = 0, garbageMax = gmax, canCount = 0, stripXonXoff = strip\<rparr>"

definition readByte :: "byte rd" where
  "readByte tr =
     (let tr1 = (if length (inp tr) = 0 \<and> ds tr \<and> 0 < timeout tr
                 then tr\<lparr>deadlineCalls := deadlineCalls tr + 1\<rparr> else tr)
      in case inp tr1 of
           [] \<Rightarrow> (Inl ErrRead, tr1)
         | b # bs \<Rightarrow> (Inr b, tr1\<lparr>inp := bs\<rparr>))"

lemma readByte_consumes:
  "readByte tr = (Inr b, tr') \<Longrightarrow> length (inp tr') < length (inp tr)"
  by (auto simp: readByte_def Let_def split: list.splits if_splits)

function readByteStrip :: "byte rd" where
  "readByteStrip tr =
     (case readByte tr of
        (Inl e, tr1) \<Rightarrow> (Inl e, tr1)
      | (Inr b, tr1) \<Rightarrow>
          if stripXonXoff tr \<and> (b AND 0x7f = XON \<or> b AND 0x7f = XOFF)
          then readByteStrip tr1
          else (Inr b, tr1))"
  by pat_completeness auto
termination
  by (relation "measure (\<lambda>tr. length (inp tr))") (auto dest: readByte_consumes [OF sym])

declare readByteStrip.simps [simp del]

lemma readByteStrip_consumes:
  "readByteStrip tr = (Inr b, tr') \<Longrightarrow> length (inp tr') < length (inp tr)"
proof (induction tr rule: readByteStrip.induct)
  case (1 tr)
  show ?case
  proof (cases "readByte tr")
    case (Pair r tr1)
    show ?thesis
    proof (cases r)
      case (Inl e)
      with Pair "1.prems" show ?thesis by (simp add: readByteStrip.simps [of tr])
    next
      case (Inr c)
      have lt: "length (inp tr1) < length (inp tr)"
        using Pair Inr by (auto dest: readByte_consumes)
      show ?thesis
      proof (cases "stripXonXoff tr \<and> (c AND 0x7f = XON \<or> c AND 0x7f = XOFF)")
        case True
        with Pair Inr "1.prems" have "readByteStrip tr1 = (Inr b, tr')"
          by (simp add: readByteStrip.simps [of tr])
        with "1.IH" [OF Pair [symmetric] Inr True] lt show ?thesis by simp
      next
        case False
        with Pair Inr "1.prems" lt show ?thesis
          by (auto simp: readByteStrip.simps [of tr])
      qed
    qed
  qed
qed

text \<open>
  \<^verbatim>\<open>zdlRead\<close> and \<^verbatim>\<open>zdlEscape\<close> call each other. The result is the pair
  \<open>(byte, frameEnd)\<close>.
\<close>

function zdlRead :: "(byte \<times> byte) rd" and zdlEscape :: "(byte \<times> byte) rd" where
  "zdlRead tr =
     (case readByteStrip tr of
        (Inl e, tr1) \<Rightarrow> (Inl e, tr1)
      | (Inr b, tr1) \<Rightarrow>
          if b = ZDLE then
            (let tr2 = tr1\<lparr>canCount := canCount tr1 + 1\<rparr>
             in if 5 \<le> canCount tr2 then (Inl ErrAbortReceived, tr2)
                else zdlEscape tr2)
          else (Inr (b, 0), tr1\<lparr>canCount := 0\<rparr>))"
| "zdlEscape tr =
     (case readByteStrip tr of
        (Inl e, tr1) \<Rightarrow> (Inl e, tr1)
      | (Inr c, tr1) \<Rightarrow>
          if c = ZCRCE \<or> c = ZCRCG \<or> c = ZCRCQ \<or> c = ZCRCW
            then (Inr (0, c), tr1\<lparr>canCount := 0\<rparr>)
          else if c = ZRUB0 then (Inr (0x7f, 0), tr1\<lparr>canCount := 0\<rparr>)
          else if c = ZRUB1 then (Inr (0xff, 0), tr1\<lparr>canCount := 0\<rparr>)
          else if 0x40 \<le> c then (Inr (c XOR 0x40, 0), tr1\<lparr>canCount := 0\<rparr>)
          else
            (let tr2 = (if c = CAN then tr1\<lparr>canCount := canCount tr1 + 1\<rparr> else tr1)
             in if c = CAN \<and> 5 \<le> canCount tr2 then (Inl ErrAbortReceived, tr2)
                else zdlRead tr2))"
  by pat_completeness auto
termination
  by (relation "measure (\<lambda>x. case x of Inl tr \<Rightarrow> length (inp tr) | Inr tr \<Rightarrow> length (inp tr))")
     (auto dest: readByteStrip_consumes [OF sym])

declare zdlRead.simps [simp del] zdlEscape.simps [simp del]

lemma zdl_consumes_aux:
  "length (inp tr) = n \<Longrightarrow>
     (zdlRead tr = (Inr r, tr') \<longrightarrow> length (inp tr') < n) \<and>
     (zdlEscape tr = (Inr r, tr') \<longrightarrow> length (inp tr') < n)"
proof (induction n arbitrary: tr r tr' rule: less_induct)
  case (less n)
  have IHr: "zdlRead t = (Inr r', t') \<Longrightarrow> length (inp t') < n"
    if "readByteStrip tr = (Inr b, t0)" "inp t = inp t0" for t t0 b r' t'
  proof -
    assume a: "zdlRead t = (Inr r', t')"
    have lt: "length (inp t) < n" using that less.prems by (auto dest: readByteStrip_consumes)
    from less.IH [OF lt refl, of r' t'] a lt show ?thesis by simp
  qed
  have IHe: "zdlEscape t = (Inr r', t') \<Longrightarrow> length (inp t') < n"
    if "readByteStrip tr = (Inr b, t0)" "inp t = inp t0" for t t0 b r' t'
  proof -
    assume a: "zdlEscape t = (Inr r', t')"
    have lt: "length (inp t) < n" using that less.prems by (auto dest: readByteStrip_consumes)
    from less.IH [OF lt refl, of r' t'] a lt show ?thesis by simp
  qed
  have base: "length (inp t0) < n" if "readByteStrip tr = (Inr b, t0)" for b t0
    using that less.prems by (auto dest: readByteStrip_consumes)
  show ?case
  proof (intro conjI impI)
    assume "zdlRead tr = (Inr r, tr')"
    then show "length (inp tr') < n"
      by (subst (asm) zdlRead.simps)
         (auto simp: Let_def split: prod.splits sum.splits if_splits
               intro: base elim: IHe [rotated 2])
  next
    assume "zdlEscape tr = (Inr r, tr')"
    then show "length (inp tr') < n"
      by (subst (asm) zdlEscape.simps)
         (auto simp: Let_def split: prod.splits sum.splits if_splits
               intro: base elim: IHr [rotated 2])
  qed
qed

lemma zdlRead_consumes:
  "zdlRead tr = (Inr r, tr') \<Longrightarrow> length (inp tr') < length (inp tr)"
  using zdl_consumes_aux [OF refl, of tr r tr'] by simp

text \<open>\<^verbatim>\<open>hexVal\<close> returns \<^verbatim>\<open>(value, ok)\<close>; here \<open>None\<close> is \<^verbatim>\<open>ok = false\<close>.\<close>

definition hexVal :: "byte \<Rightarrow> byte option" where
  "hexVal b =
     (if 0x30 \<le> b \<and> b \<le> 0x39 then Some (b - 0x30)
      else if 0x61 \<le> b \<and> b \<le> 0x66 then Some (b - 0x61 + 10)
      else if 0x41 \<le> b \<and> b \<le> 0x46 then Some (b - 0x41 + 10)
      else None)"

definition readHex :: "byte rd" where
  "readHex tr =
     (case readByte tr of
        (Inl e, tr1) \<Rightarrow> (Inl e, tr1)
      | (Inr hi0, tr1) \<Rightarrow>
          (case readByte tr1 of
             (Inl e, tr2) \<Rightarrow> (Inl e, tr2)
           | (Inr lo0, tr2) \<Rightarrow>
               (let hi = hi0 AND 0x7f; lo = lo0 AND 0x7f
                in case (hexVal hi, hexVal lo) of
                     (Some h, Some l) \<Rightarrow> (Inr (push_bit 4 h OR l), tr2)
                   | _ \<Rightarrow> (Inl (ErrInvalidHex hi lo), tr2))))"

text \<open>
  \<^verbatim>\<open>scanForPad\<close>: \<open>scanLoop\<close> is its \<^verbatim>\<open>for\<close> loop; \<open>countGarbage\<close> is the
  repeated \<^verbatim>\<open>tr.garbageCount++\<close> and \<open>garbageOver\<close> the test that follows it.
\<close>

definition countGarbage :: "transportReader \<Rightarrow> transportReader" where
  "countGarbage tr = tr\<lparr>garbageCount := garbageCount tr + 1\<rparr>"

definition garbageOver :: "transportReader \<Rightarrow> bool" where
  "garbageOver tr = (garbageMax tr < int (garbageCount tr))"

lemma inp_countGarbage [simp]: "inp (countGarbage tr) = inp tr"
  by (simp add: countGarbage_def)

function scanLoop :: "byte rd" where
  "scanLoop tr =
     (case readByte tr of
        (Inl e, tr1) \<Rightarrow> (Inl e, tr1)
      | (Inr b, tr1) \<Rightarrow>
          if b = CAN then
            (let tr2 = tr1\<lparr>canCount := canCount tr1 + 1\<rparr>
             in if 5 \<le> canCount tr2 then (Inl ErrAbortReceived, tr2)
                else (let tr3 = countGarbage tr2
                      in if garbageOver tr3 then (Inl ErrGarbageOverflow, tr3)
                         else scanLoop tr3))
          else
            (let tr2 = tr1\<lparr>canCount := 0\<rparr>
             in if b \<noteq> ZPAD then
                  (let tr3 = countGarbage tr2
                   in if garbageOver tr3 then (Inl ErrGarbageOverflow, tr3)
                      else scanLoop tr3)
                else
                  (case readByte tr2 of
                     (Inl e, tr3) \<Rightarrow> (Inl e, tr3)
                   | (Inr b2, tr3) \<Rightarrow>
                       (case (if b2 = ZPAD then readByte tr3 else (Inr b2, tr3)) of
                          (Inl e, tr4) \<Rightarrow> (Inl e, tr4)
                        | (Inr b3, tr4) \<Rightarrow>
                            if b3 \<noteq> ZDLE then
                              (let tr5 = countGarbage tr4
                               in if garbageOver tr5 then (Inl ErrGarbageOverflow, tr5)
                                  else scanLoop tr5)
                            else
                              (case readByte tr4 of
                                 (Inl e, tr5) \<Rightarrow> (Inl e, tr5)
                               | (Inr enc, tr5) \<Rightarrow>
                                   if enc = ZBIN \<or> enc = ZHEX \<or> enc = ZBIN32
                                     then (Inr enc, tr5\<lparr>garbageCount := 0\<rparr>)
                                   else if enc = ZBINR32 \<or> enc = ZVBIN \<or> enc = ZVHEX
                                           \<or> enc = ZVBIN32 \<or> enc = ZVBINR32
                                     then (Inl (ErrUnsupportedEnc enc), tr5)
                                   else
                                     (let tr6 = countGarbage tr5
                                      in if garbageOver tr6
                                         then (Inl ErrGarbageOverflow, tr6)
                                         else scanLoop tr6))))))"
  by pat_completeness auto
termination
  by (relation "measure (\<lambda>tr. length (inp tr))")
     (auto dest!: readByte_consumes [OF sym] split: if_splits)

declare scanLoop.simps [simp del]

definition scanForPad :: "byte rd" where
  "scanForPad tr = scanLoop (tr\<lparr>canCount := 0\<rparr>)"

definition resetGarbage :: "transportReader \<Rightarrow> transportReader" where
  "resetGarbage tr = tr\<lparr>garbageCount := 0\<rparr>"

definition peekForZPAD :: "transportReader \<Rightarrow> bool" where
  "peekForZPAD tr = (\<exists>b \<in> set (inp tr). b = ZPAD \<or> b = CAN)"

definition clearDeadline :: "transportReader \<Rightarrow> transportReader" where
  "clearDeadline tr =
     (if ds tr \<and> 0 < timeout tr then tr\<lparr>deadlineCalls := deadlineCalls tr + 1\<rparr> else tr)"

section \<open>Header framing\<close>

text \<open>
  The header and subpacket functions are methods of \<^verbatim>\<open>Session\<close> that touch only
  \<^verbatim>\<open>s.tw\<close>, \<^verbatim>\<open>s.tr\<close> and \<^verbatim>\<open>s.useCRC32\<close>; they take these as arguments.
  \<^verbatim>\<open>Flush\<close> hands the buffer to the transport and changes nothing in the model.
\<close>

definition sendHexHeader :: "Header \<Rightarrow> transportWriter \<Rightarrow> transportWriter" where
  "sendHexHeader hdr tw =
     (let tw1 = writeRaw [ZPAD, ZPAD, ZDLE, ZHEX] tw;
          payload = headerPayload hdr;
          crc = crc16Calc payload;
          tw2 = fold writeHex payload tw1;
          tw3 = writeHex (ucast (drop_bit 8 crc)) tw2;
          tw4 = writeHex (ucast (crc AND 0xff)) tw3;
          tw5 = writeByte 0x0d tw4;
          tw6 = writeByte 0x0a tw5
      in if Type hdr \<noteq> ZACK \<and> Type hdr \<noteq> ZFIN then writeByte XON tw6 else tw6)"

definition sendBinHeader :: "bool \<Rightarrow> Header \<Rightarrow> transportWriter \<Rightarrow> transportWriter" where
  "sendBinHeader crc32 hdr tw =
     (let enc = (if crc32 then ZBIN32 else ZBIN);
          tw1 = writeRaw [ZPAD, ZDLE, enc] tw;
          payload = headerPayload hdr
      in if crc32 then
           (let crc = crc32Calc payload;
                tw2 = writeEscaped payload tw1
            in writeEscaped (le_bytes32 crc) tw2)
         else
           (let crc = crc16Calc payload;
                tw2 = writeEscaped payload tw1;
                tw3 = writeEscapedByte (ucast (drop_bit 8 crc)) tw2
            in writeEscapedByte (ucast (crc AND 0xff)) tw3))"

definition sendBinHeaderWithZnulls ::
    "int \<Rightarrow> bool \<Rightarrow> Header \<Rightarrow> transportWriter \<Rightarrow> transportWriter" where
  "sendBinHeaderWithZnulls znulls crc32 hdr tw =
     sendBinHeader crc32 hdr
       (if 0 < znulls then writeRaw (replicate (nat znulls) 0) tw else tw)"

text \<open>The loop \<^verbatim>\<open>for i := range raw\<close> over \<^verbatim>\<open>readHex\<close>.\<close>

fun readHexN :: "nat \<Rightarrow> (byte list) rd" where
  "readHexN 0 tr = (Inr [], tr)"
| "readHexN (Suc n) tr =
     (case readHex tr of
        (Inl e, tr1) \<Rightarrow> (Inl (Wrap ''hex header read'' e), tr1)
      | (Inr b, tr1) \<Rightarrow>
          (case readHexN n tr1 of
             (Inl e, tr2) \<Rightarrow> (Inl e, tr2)
           | (Inr bs, tr2) \<Rightarrow> (Inr (b # bs), tr2)))"

definition recvHexHeader :: "Header rd" where
  "recvHexHeader tr =
     (case readHexN 7 tr of
        (Inl e, tr1) \<Rightarrow> (Inl e, tr1)
      | (Inr raw, tr1) \<Rightarrow>
          (let hdr = \<lparr>Encoding = ZHEX, Type = raw ! 0,
                      Data = \<lparr>d0 = raw ! 1, d1 = raw ! 2, d2 = raw ! 3, d3 = raw ! 4\<rparr>\<rparr>
           in if \<not> crc16Verify raw then (Inl (ErrHexHeaderCRC (Type hdr)), tr1)
              else
                (case readByte tr1 of
                   (Inl e, tr2) \<Rightarrow> (Inl e, tr2)
                 | (Inr cr, tr2) \<Rightarrow>
                     if cr AND 0x7f \<noteq> 0x0d then
                       (if cr AND 0x7f = 0x0a then (Inr hdr, tr2)
                        else (Inl (ErrExpectedCR cr), tr2))
                     else
                       (case readByte tr2 of
                          (Inl e, tr3) \<Rightarrow> (Inl e, tr3)
                        | (Inr lf, tr3) \<Rightarrow>
                            if lf AND 0x7f \<noteq> 0x0a then (Inl (ErrExpectedLF lf), tr3)
                            else if Type hdr \<noteq> ZACK \<and> Type hdr \<noteq> ZFIN
                                    \<and> 0 < length (inp tr3)
                            then (case inp tr3 of
                                    [] \<Rightarrow> (Inr hdr, tr3)
                                  | p # _ \<Rightarrow>
                                      if p AND 0x7f = XON then (Inr hdr, snd (readByte tr3))
                                      else (Inr hdr, tr3))
                            else (Inr hdr, tr3)))))"

text \<open>
  The loops \<^verbatim>\<open>for i := range payload\<close> and \<^verbatim>\<open>for i := range crcBuf\<close> over
  \<^verbatim>\<open>zdlRead\<close>; \<open>msg\<close> is the text the read error is wrapped in and \<open>fe\<close> the error
  for a frame end inside the field.
\<close>

fun zdlReadN :: "nat \<Rightarrow> string \<Rightarrow> error \<Rightarrow> (byte list) rd" where
  "zdlReadN 0 msg fe tr = (Inr [], tr)"
| "zdlReadN (Suc n) msg fe tr =
     (case zdlRead tr of
        (Inl e, tr1) \<Rightarrow> (Inl (Wrap msg e), tr1)
      | (Inr (b, frameEnd), tr1) \<Rightarrow>
          if frameEnd \<noteq> 0 then (Inl fe, tr1)
          else (case zdlReadN n msg fe tr1 of
                  (Inl e, tr2) \<Rightarrow> (Inl e, tr2)
                | (Inr bs, tr2) \<Rightarrow> (Inr (b # bs), tr2)))"

definition recvBinHeader :: "bool \<Rightarrow> Header rd" where
  "recvBinHeader crc32mode tr =
     (case zdlReadN 5 ''bin header read'' ErrFrameEndInHeader tr of
        (Inl e, tr1) \<Rightarrow> (Inl e, tr1)
      | (Inr payload, tr1) \<Rightarrow>
          (let hdr = \<lparr>Encoding = (if crc32mode then ZBIN32 else ZBIN), Type = payload ! 0,
                      Data = \<lparr>d0 = payload ! 1, d1 = payload ! 2, d2 = payload ! 3,
                              d3 = payload ! 4\<rparr>\<rparr>
           in if crc32mode then
                (case zdlReadN 4 ''bin32 header CRC read'' ErrFrameEndInCRC tr1 of
                   (Inl e, tr2) \<Rightarrow> (Inl e, tr2)
                 | (Inr crcBuf, tr2) \<Rightarrow>
                     if \<not> crc32Verify (payload @ crcBuf)
                     then (Inl (ErrBinHeaderCRC (Type hdr)), tr2)
                     else (Inr hdr, tr2))
              else
                (case zdlReadN 2 ''bin header CRC read'' ErrFrameEndInCRC tr1 of
                   (Inl e, tr2) \<Rightarrow> (Inl e, tr2)
                 | (Inr crcBuf, tr2) \<Rightarrow>
                     if \<not> crc16Verify (payload @ crcBuf)
                     then (Inl (ErrBinHeaderCRC (Type hdr)), tr2)
                     else (Inr hdr, tr2))))"

definition recvHeader :: "Header rd" where
  "recvHeader tr =
     (case scanForPad tr of
        (Inl e, tr1) \<Rightarrow> (Inl e, tr1)
      | (Inr enc, tr1) \<Rightarrow>
          (case (if enc = ZHEX then recvHexHeader tr1
                 else if enc = ZBIN then recvBinHeader False tr1
                 else if enc = ZBIN32 then recvBinHeader True tr1
                 else (Inl (ErrUnsupportedEnc enc), tr1)) of
             (Inl e, tr2) \<Rightarrow> (Inl e, tr2)
           | (Inr hdr, tr2) \<Rightarrow> (Inr hdr, resetGarbage tr2)))"

section \<open>Subpacket framing\<close>


text \<open>
  \<^verbatim>\<open>recvSubpacketCRC16\<close> is its own \<^verbatim>\<open>for\<close> loop, with \<open>data\<close> the slice grown
  by \<^verbatim>\<open>append\<close>; \<open>recvSubpacketCRC32Loop\<close> is the loop of \<^verbatim>\<open>recvSubpacketCRC32\<close>.
  \<open>maxLen\<close> is a Go \<^verbatim>\<open>int\<close>.
\<close>

function recvSubpacketCRC16 :: "byte list \<Rightarrow> int \<Rightarrow> (byte list \<times> byte) rd" where
  "recvSubpacketCRC16 data maxLen tr =
     (case zdlRead tr of
        (Inl e, tr1) \<Rightarrow> (Inl (Wrap ''subpacket read'' e), tr1)
      | (Inr (b, frameEnd), tr1) \<Rightarrow>
          if frameEnd \<noteq> 0 then
            (case zdlRead tr1 of
               (Inl e, tr2) \<Rightarrow> (Inl (Wrap ''subpacket CRC read'' e), tr2)
             | (Inr (crcHi, fe), tr2) \<Rightarrow>
                 if fe \<noteq> 0 then (Inl ErrFrameEndInSubpacketCRC, tr2)
                 else
                   (case zdlRead tr2 of
                      (Inl e, tr3) \<Rightarrow> (Inl (Wrap ''subpacket CRC read'' e), tr3)
                    | (Inr (crcLo, fe2), tr3) \<Rightarrow>
                        if fe2 \<noteq> 0 then (Inl ErrFrameEndInSubpacketCRC, tr3)
                        else
                          (let crc = crc16Finalize
                                       (crc16Update (crc16Update 0 data) [frameEnd]);
                               recvCRC = push_bit 8 (ucast crcHi) OR ucast crcLo
                           in if crc \<noteq> recvCRC then (Inl ErrSubpacketCRC, tr3)
                              else (Inr (data, frameEnd), tr3))))
          else if maxLen \<le> int (length data) then (Inl (ErrSubpacketTooLong maxLen), tr1)
          else recvSubpacketCRC16 (data @ [b]) maxLen tr1)"
  by pat_completeness auto
termination
  by (relation "measure (\<lambda>(data, maxLen, tr). length (inp tr))")
     (auto dest: zdlRead_consumes [OF sym])

declare recvSubpacketCRC16.simps [simp del]

function recvSubpacketCRC32Loop :: "byte list \<Rightarrow> int \<Rightarrow> (byte list \<times> byte) rd" where
  "recvSubpacketCRC32Loop data maxLen tr =
     (case zdlRead tr of
        (Inl e, tr1) \<Rightarrow> (Inl (Wrap ''subpacket read'' e), tr1)
      | (Inr (b, frameEnd), tr1) \<Rightarrow>
          if frameEnd \<noteq> 0 then
            (case zdlReadN 4 ''subpacket CRC32 read'' ErrFrameEndInSubpacketCRC32 tr1 of
               (Inl e, tr2) \<Rightarrow> (Inl e, tr2)
             | (Inr crcBuf, tr2) \<Rightarrow>
                 (let crc = crc32Update (crc32Update 0 data) [frameEnd];
                      recvCRC = le_word32 crcBuf
                  in if crc \<noteq> recvCRC then (Inl ErrSubpacketCRC32, tr2)
                     else (Inr (data, frameEnd), tr2)))
          else if maxLen \<le> int (length data) then (Inl (ErrSubpacketTooLong maxLen), tr1)
          else recvSubpacketCRC32Loop (data @ [b]) maxLen tr1)"
  by pat_completeness auto
termination
  by (relation "measure (\<lambda>(data, maxLen, tr). length (inp tr))")
     (auto dest: zdlRead_consumes [OF sym])

declare recvSubpacketCRC32Loop.simps [simp del]

definition recvSubpacketCRC32 :: "int \<Rightarrow> (byte list \<times> byte) rd" where
  "recvSubpacketCRC32 maxLen tr = recvSubpacketCRC32Loop [] maxLen tr"

definition recvSubpacket :: "bool \<Rightarrow> int \<Rightarrow> (byte list \<times> byte) rd" where
  "recvSubpacket crc32 maxLen tr =
     (if crc32 then recvSubpacketCRC32 maxLen tr else recvSubpacketCRC16 [] maxLen tr)"

section \<open>Sessions\<close>

text \<open>\<^verbatim>\<open>time.Duration\<close> counts nanoseconds.\<close>

abbreviation Second :: int where "Second \<equiv> 1000000000"

record Config =
  MaxBlockSize :: int
  WindowSize :: int
  EscapeMode :: EscapeMode
  Use32BitCRC :: bool
  AttnSequence :: "byte list"
  RecvTimeout :: int
  Capabilities :: byte
  MaxFileSize :: int
  MaxRetries :: int
  GarbageThreshold :: int
  Znulls :: int

text \<open>The zero value \<^verbatim>\<open>var c Config\<close>.\<close>

definition zeroConfig :: Config where
  "zeroConfig =
     \<lparr>MaxBlockSize = 0, WindowSize = 0, EscapeMode = EscapeStandard, Use32BitCRC = False,
      AttnSequence = [], RecvTimeout = 0, Capabilities = 0, MaxFileSize = 0,
      MaxRetries = 0, GarbageThreshold = 0, Znulls = 0\<rparr>"

definition defaults :: "Config \<Rightarrow> Config" where
  "defaults c =
     (let c1 = (if MaxBlockSize c \<le> 0 then c\<lparr>MaxBlockSize := 1024\<rparr> else c);
          c2 = (if 8192 < MaxBlockSize c1 then c1\<lparr>MaxBlockSize := 8192\<rparr> else c1);
          c3 = (if RecvTimeout c2 < 0 then c2\<lparr>RecvTimeout := 0\<rparr> else c2);
          c4 = (if MaxRetries c3 \<le> 0 then c3\<lparr>MaxRetries := 10\<rparr> else c3)
      in if GarbageThreshold c4 \<le> 0 then c4\<lparr>GarbageThreshold := 1200\<rparr> else c4)"

text \<open>
  \<^verbatim>\<open>FileOffer.Reader\<close> is an \<^verbatim>\<open>io.Reader\<close> that may also be an \<^verbatim>\<open>io.ReadSeeker\<close>. It
  is modelled as an in-memory reader in the manner of \<^verbatim>\<open>bytes.Reader\<close>: the content, the
  read position, and whether \<^verbatim>\<open>Seek\<close> is implemented. \<^verbatim>\<open>time.Time\<close> is the number of
  seconds since the Unix epoch, \<open>None\<close> for the zero \<^verbatim>\<open>Time\<close>; a Go string is its octets.
\<close>

record FileReader =
  content :: "byte list"
  rpos :: int
  seekable :: bool

record FileOffer =
  Name :: "byte list"
  Size :: int
  ModTime :: "int option"
  Mode :: "32 word"
  Reader :: FileReader

record FileInfo =
  Name :: "byte list"
  Size :: int
  ModTime :: "int option"
  Mode :: "32 word"
  FilesRemaining :: int
  BytesRemaining :: int

text \<open>
  \<^verbatim>\<open>FileHandler\<close> is an interface of the caller. The model keeps what the session
  observes of it: the offers \<^verbatim>\<open>NextFile\<close> will return, in order, and the
  \<^verbatim>\<open>FileProgress\<close> calls received so far.
\<close>

record FileHandler =
  offers :: "FileOffer list"
  progress :: "(FileInfo \<times> int) list"

definition NextFile :: "FileHandler \<Rightarrow> FileOffer option \<times> FileHandler" where
  "NextFile h = (case offers h of [] \<Rightarrow> (None, h) | x # xs \<Rightarrow> (Some x, h\<lparr>offers := xs\<rparr>))"


text \<open>
  The session. Its fields \<^verbatim>\<open>tw\<close> and \<^verbatim>\<open>tr\<close> are \<open>s_tw\<close> and \<open>s_tr\<close> here; the
  transport is held by the writer and the reader; the logger and the mutex are
  not modelled.
\<close>

record Session =
  handler :: FileHandler
  cfg :: Config
  s_tw :: transportWriter
  s_tr :: transportReader
  useCRC32 :: bool
  remoteFlags :: byte
  remoteEscAll :: bool
  attnSeq :: "byte list"
  remoteWindowSize :: int

text \<open>
  \<^verbatim>\<open>NewSession\<close>: the transport is the octets it will deliver and whether it has
  \<^verbatim>\<open>SetReadDeadline\<close>. The writer gets \<^verbatim>\<open>c.EscapeMode\<close> and the reader the flag
  \<^verbatim>\<open>c.EscapeMode != EscapeMinimal\<close>.
\<close>

definition NewSession :: "byte list \<Rightarrow> bool \<Rightarrow> FileHandler \<Rightarrow> Config option \<Rightarrow> Session" where
  "NewSession transport hasDeadline h cfg0 =
     (let c = defaults (case cfg0 of None \<Rightarrow> zeroConfig | Some c0 \<Rightarrow> c0);
          c = (if cfg0 = None \<and> RecvTimeout c = 0 then c\<lparr>RecvTimeout := 10 * Second\<rparr> else c)
      in \<lparr>handler = h, cfg = c,
          s_tw = newTransportWriterMode (EscapeMode c),
          s_tr = newTransportReader transport hasDeadline (GarbageThreshold c) (RecvTimeout c)
                   (EscapeMode c \<noteq> EscapeMinimal),
          useCRC32 = False, remoteFlags = 0, remoteEscAll = False, attnSeq = [],
          remoteWindowSize = 0\<rparr>)"


section \<open>File information\<close>

text \<open>
  \<^verbatim>\<open>strings.Fields\<close> splits around runs of white space as \<^verbatim>\<open>unicode.IsSpace\<close> defines
  it. \<open>spaceLen\<close> is the number of octets of the white-space character that starts
  the sequence, 0 when none does: the six ASCII ones, and in UTF-8 U+0085, U+00A0,
  U+1680, U+2000 to U+200A, U+2028, U+2029, U+202F, U+205F and U+3000. Their first
  octet is never a continuation octet, so reading octet by octet meets them
  exactly where Go's decoding of the string does.
\<close>

definition asciiSpace :: "byte \<Rightarrow> bool" where
  "asciiSpace b \<longleftrightarrow> b = 0x09 \<or> b = 0x0a \<or> b = 0x0b \<or> b = 0x0c \<or> b = 0x0d \<or> b = 0x20"

definition spaceLen :: "byte list \<Rightarrow> nat" where
  "spaceLen s =
     (case s of
        [] \<Rightarrow> 0
      | b # rest \<Rightarrow>
          if asciiSpace b then 1
          else if b = 0xC2 then
            (case rest of
               c # _ \<Rightarrow> if c = 0x85 \<or> c = 0xA0 then 2 else 0
             | _ \<Rightarrow> 0)
          else if b = 0xE1 then (if take 2 rest = [0x9A, 0x80] then 3 else 0)
          else if b = 0xE2 then
            (case rest of
               c # d # _ \<Rightarrow>
                 if c = 0x80 \<and> (0x80 \<le> d \<and> d \<le> 0x8A \<or> d = 0xA8 \<or> d = 0xA9 \<or> d = 0xAF)
                    \<or> c = 0x81 \<and> d = 0x9F
                 then 3 else 0
             | _ \<Rightarrow> 0)
          else if b = 0xE3 then (if take 2 rest = [0x80, 0x80] then 3 else 0)
          else 0)"

text \<open>\<open>skip\<close> octets of a white-space character remain; \<open>cur\<close> is the field being read.\<close>

fun fieldsLoop :: "nat \<Rightarrow> byte list \<Rightarrow> byte list \<Rightarrow> byte list list" where
  "fieldsLoop skip cur [] = (if cur = [] then [] else [cur])"
| "fieldsLoop skip cur (b # bs) =
     (if 0 < skip then fieldsLoop (skip - 1) cur bs
      else if 0 < spaceLen (b # bs)
        then (if cur = [] then [] else [cur]) @ fieldsLoop (spaceLen (b # bs) - 1) [] bs
      else fieldsLoop 0 (cur @ [b]) bs)"

definition Fields :: "byte list \<Rightarrow> byte list list" where
  "Fields s = fieldsLoop 0 [] s"

text \<open>
  \<^verbatim>\<open>strconv.ParseUint\<close> and \<^verbatim>\<open>strconv.ParseInt\<close> with an explicit base, so that no
  prefix and no underscore is accepted; \<open>None\<close> is a non-nil error (syntax or
  range). \<^verbatim>\<open>strconv.Atoi\<close> is \<^verbatim>\<open>ParseInt(s, 10, 0)\<close> with a 64-bit \<^verbatim>\<open>int\<close>.
\<close>

definition digitVal :: "byte \<Rightarrow> nat option" where
  "digitVal c =
     (if 0x30 \<le> c \<and> c \<le> 0x39 then Some (unat (c - 0x30))
      else if 0x61 \<le> (c OR 0x20) \<and> (c OR 0x20) \<le> 0x7a
        then Some (unat ((c OR 0x20) - 0x61) + 10)
      else None)"

fun parseDigits :: "nat \<Rightarrow> nat \<Rightarrow> byte list \<Rightarrow> nat option" where
  "parseDigits base n [] = Some n"
| "parseDigits base n (c # cs) =
     (case digitVal c of
        None \<Rightarrow> None
      | Some d \<Rightarrow> if base \<le> d then None else parseDigits base (n * base + d) cs)"

definition ParseUint :: "byte list \<Rightarrow> nat \<Rightarrow> nat \<Rightarrow> nat option" where
  "ParseUint s base bitSize =
     (if s = [] then None
      else case parseDigits base 0 s of
             None \<Rightarrow> None
           | Some n \<Rightarrow> if n < 2 ^ bitSize then Some n else None)"

definition ParseInt :: "byte list \<Rightarrow> nat \<Rightarrow> nat \<Rightarrow> int option" where
  "ParseInt s base bitSize =
     (if s = [] then None
      else
        (let neg = (hd s = 0x2d);
             s1 = (if hd s = 0x2b \<or> hd s = 0x2d then tl s else s)
         in if s1 = [] then None
            else case parseDigits base 0 s1 of
                   None \<Rightarrow> None
                 | Some un \<Rightarrow>
                     if \<not> neg \<and> 2 ^ (bitSize - 1) \<le> un then None
                     else if neg \<and> 2 ^ (bitSize - 1) < un then None
                     else Some (if neg then - int un else int un)))"

definition Atoi :: "byte list \<Rightarrow> int option" where
  "Atoi s = ParseInt s 10 64"

text \<open>The loop that finds the first NUL; \<open>None\<close> is \<^verbatim>\<open>nullIdx = -1\<close>.\<close>

fun nullIndex :: "byte list \<Rightarrow> nat option" where
  "nullIndex [] = None"
| "nullIndex (b # bs) = (if b = 0 then Some 0 else map_option Suc (nullIndex bs))"

text \<open>The loop that trims trailing NULs.\<close>

definition trimNuls :: "byte list \<Rightarrow> byte list" where
  "trimNuls rest = rev (dropWhile (\<lambda>b. b = 0) (rev rest))"

definition zeroFileInfo :: FileInfo where
  "zeroFileInfo =
     \<lparr>Name = [], Size = 0, ModTime = None, Mode = 0, FilesRemaining = 0,
      BytesRemaining = 0\<rparr>"

text \<open>
  \<^verbatim>\<open>parseFileInfo\<close> returns \<^verbatim>\<open>(info, nil)\<close> or the zero \<^verbatim>\<open>FileInfo\<close> with an error.
\<close>

definition parseFileInfo :: "byte list \<Rightarrow> error + FileInfo" where
  "parseFileInfo data =
     (case nullIndex data of
        None \<Rightarrow> Inl ErrMissingNul
      | Some nullIdx \<Rightarrow>
          (let info = zeroFileInfo\<lparr>Name := take nullIdx data\<rparr>;
               rest = trimNuls (drop (nullIdx + 1) data)
           in if length rest = 0 then Inr info
              else
                (let fields = Fields rest;
                     info1 = (if 0 < length fields
                              then (case ParseInt (fields ! 0) 10 64 of
                                      Some sz \<Rightarrow> info\<lparr>Size := sz\<rparr>
                                    | None \<Rightarrow> info)
                              else info);
                     info2 = (if 1 < length fields
                              then (case ParseInt (fields ! 1) 8 64 of
                                      Some modtime \<Rightarrow>
                                        if 0 < modtime then info1\<lparr>ModTime := Some modtime\<rparr>
                                        else info1
                                    | None \<Rightarrow> info1)
                              else info1);
                     info3 = (if 2 < length fields
                              then (case ParseUint (fields ! 2) 8 32 of
                                      Some mode \<Rightarrow> info2\<lparr>Mode := of_nat mode\<rparr>
                                    | None \<Rightarrow> info2)
                              else info2);
                     info4 = (if 4 < length fields
                              then (case Atoi (fields ! 4) of
                                      Some fr \<Rightarrow> info3\<lparr>FilesRemaining := fr\<rparr>
                                    | None \<Rightarrow> info3)
                              else info3);
                     info5 = (if 5 < length fields
                              then (case ParseInt (fields ! 5) 10 64 of
                                      Some br \<Rightarrow> info4\<lparr>BytesRemaining := br\<rparr>
                                    | None \<Rightarrow> info4)
                              else info4)
                 in Inr info5)))"


section \<open>Receiving data subpackets\<close>










section \<open>Sender\<close>

text \<open>
  \<^verbatim>\<open>runSender\<close> is one loop over \<^verbatim>\<open>state\<close>; its local variables are the record
  \<open>senderVars\<close>, and the parts of the loop body the properties below are about are
  functions on that record and the session. \<open>initSenderVars\<close> is the frame as the
  loop is entered: zero values, then \<^verbatim>\<open>blockSize = 256\<close> and \<^verbatim>\<open>goodNeeded = 8\<close>.
\<close>

datatype senderState =
    stxInit | stxSInit | stxFileInfo | stxFileInfoAck | stxData | stxEOF | stxEOFAck
  | stxNextFile | stxFin | stxFinAck | stxDone

record senderVars =
  state :: senderState
  curOffer :: "FileOffer option"
  curInfo :: FileInfo
  fileOffset :: int
  bytesSent :: int
  retries :: int
  blockSize :: int
  goodBlocks :: int
  goodNeeded :: int
  unreliable :: bool
  zcrcwNext :: bool
  zcrcwRetries :: int
  filesLeft :: int
  bytesLeft :: int

definition initSenderVars :: senderVars where
  "initSenderVars =
     \<lparr>state = stxInit, curOffer = None, curInfo = zeroFileInfo, fileOffset = 0,
      bytesSent = 0, retries = 0, blockSize = 256, goodBlocks = 0, goodNeeded = 8,
      unreliable = False, zcrcwNext = False, zcrcwRetries = 0, filesLeft = 0,
      bytesLeft = 0\<rparr>"

text \<open>\<^verbatim>\<open>case stxNextFile\<close>.\<close>

definition runSender_stxNextFile :: "senderVars \<Rightarrow> Session \<Rightarrow> senderVars \<times> Session" where
  "runSender_stxNextFile v s =
     (case NextFile (handler s) of
        (None, h1) \<Rightarrow> (v\<lparr>curOffer := None, state := stxFin\<rparr>, s\<lparr>handler := h1\<rparr>)
      | (Some offer, h1) \<Rightarrow>
          (v\<lparr>curOffer := Some offer,
             curInfo := \<lparr>Name = FileOffer.Name offer, Size = FileOffer.Size offer,
                         ModTime = FileOffer.ModTime offer, Mode = FileOffer.Mode offer,
                         FilesRemaining = 0, BytesRemaining = 0\<rparr>,
             fileOffset := 0, bytesSent := 0, retries := 0, goodBlocks := 0,
             zcrcwNext := False, zcrcwRetries := 0, state := stxFileInfo\<rparr>,
           s\<lparr>handler := h1\<rparr>))"

text \<open>
  \<^verbatim>\<open>seekFile\<close>: the type assertion to \<^verbatim>\<open>io.ReadSeeker\<close>, then \<^verbatim>\<open>Seek(offset, io.SeekStart)\<close>,
  which refuses a negative position.
\<close>

definition seekFile :: "FileOffer \<Rightarrow> int \<Rightarrow> error option \<times> FileOffer" where
  "seekFile offer offset =
     (if \<not> seekable (Reader offer) then (Some ErrNotSeekable, offer)
      else if offset < 0 then (Some ErrSeek, offer)
      else (None, offer\<lparr>Reader := (Reader offer)\<lparr>rpos := offset\<rparr>\<rparr>))"

text \<open>
  \<^verbatim>\<open>case stxData\<close>, its head: the ZDATA header with the current offset, and the
  locals \<^verbatim>\<open>lastAckOffset\<close> and \<^verbatim>\<open>subpacketCount\<close> of the inner loop.
\<close>

definition runSender_stxData_head :: "senderVars \<Rightarrow> Session \<Rightarrow> Session \<times> int \<times> int" where
  "runSender_stxData_head v s =
     (s\<lparr>s_tw := sendBinHeaderWithZnulls (Znulls (cfg s)) (useCRC32 s)
                    (makePosHeader ZDATA (fileOffset v)) (s_tw s)\<rparr>,
      fileOffset v, 0)"

text \<open>
  The reverse-channel check at the top of the inner loop of \<^verbatim>\<open>case stxData\<close>. The
  result is the error \<^verbatim>\<open>runSender\<close> returns with, if any, the variables,
  \<^verbatim>\<open>lastAckOffset\<close>, \<^verbatim>\<open>sendLoop\<close> and the session. \<^verbatim>\<open>err == errAbortReceived\<close> is
  true of that error only, not of one wrapping it. A nil \<^verbatim>\<open>curOffer\<close> would
  panic in \<^verbatim>\<open>seekFile\<close>. Go's integer division truncates.
\<close>

definition runSender_stxData_reverse ::
    "senderVars \<Rightarrow> int \<Rightarrow> Session \<Rightarrow> error option \<times> senderVars \<times> int \<times> bool \<times> Session" where
  "runSender_stxData_reverse v lastAckOffset s =
     (if peekForZPAD (s_tr s) then
        (case recvHeader (s_tr s) of
           (Inl err, tr1) \<Rightarrow>
             if err = ErrAbortReceived
             then (Some err, v, lastAckOffset, False, s\<lparr>s_tr := tr1\<rparr>)
             else (None, v, lastAckOffset, False, s\<lparr>s_tr := tr1\<rparr>)
         | (Inr rxHdr, tr1) \<Rightarrow>
             if Type rxHdr = ZRPOS then
               (let newPos = Position rxHdr
                in case curOffer v of
                     None \<Rightarrow> (Some ErrNilPointer, v, lastAckOffset, False, s\<lparr>s_tr := tr1\<rparr>)
                   | Some offer \<Rightarrow>
                       (case seekFile offer newPos of
                          (Some err, offer1) \<Rightarrow>
                            (Some err, v\<lparr>curOffer := Some offer1\<rparr>, lastAckOffset, False,
                             s\<lparr>s_tr := tr1\<rparr>)
                        | (None, offer1) \<Rightarrow>
                            (None,
                             v\<lparr>curOffer := Some offer1, fileOffset := newPos,
                               bytesSent := newPos,
                               blockSize := max (blockSize v sdiv 4) 32,
                               goodBlocks := 0, unreliable := True, zcrcwNext := True,
                               zcrcwRetries := 0, state := stxData\<rparr>,
                             lastAckOffset, True, s\<lparr>s_tr := tr1\<rparr>)))
             else if Type rxHdr = ZACK then
               (None, v, Position rxHdr, False, s\<lparr>s_tr := tr1\<rparr>)
             else (None, v, lastAckOffset, False, s\<lparr>s_tr := tr1\<rparr>))
      else (None, v, lastAckOffset, False, s))"

text \<open>The \<^verbatim>\<open>switch\<close> that chooses the end type of a data subpacket.\<close>

definition runSender_endType :: "senderVars \<Rightarrow> bool \<Rightarrow> bool \<Rightarrow> int \<Rightarrow> byte" where
  "runSender_endType v atEOF canFDX subpacketCount =
     (if zcrcwNext v then ZCRCW
      else if atEOF then ZCRCE
      else if canFDX \<and> 0 < subpacketCount \<and> subpacketCount smod 8 = 0 then ZCRCQ
      else ZCRCG)"

text \<open>The block size adaptation after a subpacket has been sent.\<close>

definition runSender_adapt :: "senderVars \<Rightarrow> Session \<Rightarrow> senderVars" where
  "runSender_adapt v s =
     (let adaptNeeded = (if unreliable v then 16 else goodNeeded v)
      in if adaptNeeded \<le> goodBlocks v \<and> blockSize v < MaxBlockSize (cfg s) then
           (let b = blockSize v * 2
            in v\<lparr>blockSize := (if MaxBlockSize (cfg s) < b then MaxBlockSize (cfg s) else b),
                 goodBlocks := 0\<rparr>)
         else v)"


section \<open>Word arithmetic used by the codec\<close>

lemma byte_lt: "uint (b::byte) < 256"
  using uint_bounded [of b] by simp

lemma or8: "uint (a::byte) OR push_bit 8 k = uint a + 256 * k"
proof -
  have "take_bit 8 (uint a) = uint a" by (simp add: take_bit_eq_mod byte_lt)
  then have "uint a OR push_bit 8 k = concat_bit 8 (uint a) k" by (simp add: concat_bit_def)
  then show ?thesis by (simp add: concat_bit_eq push_bit_eq_mult take_bit_eq_mod byte_lt)
qed

lemma uint_push_ucast:
  "n \<le> 24 \<Longrightarrow> uint (push_bit n (ucast (b::byte) :: 32 word)) = push_bit n (uint b)"
proof -
  assume n: "n \<le> 24"
  have "push_bit n (uint b) < push_bit n (2 ^ 8)"
    using byte_lt [of b] by (simp add: push_bit_eq_mult)
  also have "\<dots> \<le> (2::int) ^ 32"
  proof -
    have "(2::int) ^ n \<le> 2 ^ 24" using n by (intro power_increasing) auto
    then show ?thesis by (simp add: push_bit_eq_mult)
  qed
  finally have "take_bit 32 (push_bit n (uint b)) = push_bit n (uint b)"
    by (simp add: take_bit_int_eq_self push_bit_eq_mult)
  moreover have "uint (ucast b :: 32 word) = uint b"
    by (simp add: uint_up_ucast is_up)
  ultimately show ?thesis
    by (simp add: unsigned_push_bit_eq)
qed

lemma le_uint32_value:
  "uint (le_uint32 d) =
     uint (d0 d) + 256 * uint (d1 d) + 65536 * uint (d2 d) + 16777216 * uint (d3 d)"
proof -
  have "uint (le_uint32 d) =
      uint (d0 d) OR push_bit 8 (uint (d1 d) OR push_bit 8 (uint (d2 d) OR push_bit 8 (uint (d3 d))))"
    unfolding le_uint32_def
    using uint_push_ucast [of 0 "d0 d"] uint_push_ucast [of 8 "d1 d"]
      uint_push_ucast [of 16 "d2 d"] uint_push_ucast [of 24 "d3 d"]
    by (simp add: uint_or push_bit_or or.assoc)
  then show ?thesis by (simp add: or8)
qed

lemma ff16: "(0xff :: 16 word) = mask 8"
  by (simp add: mask_eq_exp_minus_1)


lemma crc16_recombine_xor:
  "push_bit 8 (ucast (ucast (drop_bit 8 c :: 16 word) :: byte))
     XOR ucast (ucast (c AND 0xff) :: byte) = (c :: 16 word)"
  unfolding ff16
  by (rule bit_word_eqI) (auto simp: bit_simps not_le)

lemma le_word32_le_bytes32: "le_word32 (le_bytes32 v) = v"
  unfolding le_word32_def le_bytes32_def
  apply simp
  apply (rule bit_word_eqI)
  apply (auto simp: bit_simps not_le)
  subgoal for n by (cases "24 \<le> n") auto
  done

lemma drop_bit_8_ucast_byte: "drop_bit 8 (ucast (h::byte) :: 16 word) = 0"
  by (rule bit_word_eqI) (auto simp: bit_simps dest: bit_imp_le_length)

lemma crc16Step_xor: "crc16Step b c = crc16Step 0 c XOR ucast b"
  by (simp add: crc16Step_def ac_simps)

text \<open>The finalized CRC-16, appended high octet first, verifies to zero.\<close>

lemma crc16_verify_calc:
  "crc16Verify (p @ [ucast (drop_bit 8 (crc16Calc p)), ucast (crc16Calc p AND 0xff)])"
proof -
  define s where "s = crc16Update 0 p"
  define u where "u = crc16Step 0 s"
  define c where "c = crc16Step 0 u"
  have c: "crc16Calc p = c"
    by (simp add: crc16Calc_def crc16Finalize_def crc16Update_def s_def u_def c_def)
  have "crc16Step 0 (u XOR ucast (hi::byte)) = c XOR push_bit 8 (ucast hi)" for hi
    by (simp add: crc16Step_def c_def drop_bit_xor drop_bit_8_ucast_byte push_bit_xor xor.assoc)
  then have "crc16Update 0 (p @ [ucast (drop_bit 8 c), ucast (c AND 0xff)]) =
      c XOR (push_bit 8 (ucast (ucast (drop_bit 8 c) :: byte))
             XOR ucast (ucast (c AND 0xff) :: byte))"
    by (simp add: crc16Update_def s_def [symmetric, unfolded crc16Update_def] u_def [symmetric]
          crc16Step_xor [of "ucast (drop_bit 8 c)"] crc16Step_xor [of "ucast (c AND 255)"]
          xor.assoc)
  then show ?thesis
    by (simp add: crc16Verify_def c crc16_recombine_xor)
qed

section \<open>Reading what the writer escapes\<close>


lemma readByte_cons: "inp tr = b # bs \<Longrightarrow> readByte tr = (Inr b, tr\<lparr>inp := bs\<rparr>)"
  by (simp add: readByte_def)

lemma readByte_nil: "inp tr = [] \<Longrightarrow> fst (readByte tr) = Inl ErrRead"
  by (simp add: readByte_def Let_def)

lemma readByteStrip_plain:
  "inp tr = b # bs \<Longrightarrow> b AND 0x7f \<noteq> XON \<Longrightarrow> b AND 0x7f \<noteq> XOFF \<Longrightarrow>
     readByteStrip tr = (Inr b, tr\<lparr>inp := bs\<rparr>)"
  by (subst readByteStrip.simps) (simp add: readByte_cons)

lemma zdlRead_plain:
  "inp tr = b # bs \<Longrightarrow> b \<noteq> ZDLE \<Longrightarrow> b AND 0x7f \<noteq> XON \<Longrightarrow> b AND 0x7f \<noteq> XOFF \<Longrightarrow>
     zdlRead tr = (Inr (b, 0), tr\<lparr>inp := bs, canCount := 0\<rparr>)"
  by (subst zdlRead.simps) (simp add: readByteStrip_plain)

lemma zdlRead_escaped:
  "inp tr = ZDLE # c # bs \<Longrightarrow> canCount tr < 4 \<Longrightarrow> 0x40 \<le> c \<Longrightarrow>
   c \<noteq> ZCRCE \<Longrightarrow> c \<noteq> ZCRCG \<Longrightarrow> c \<noteq> ZCRCQ \<Longrightarrow> c \<noteq> ZCRCW \<Longrightarrow> c \<noteq> ZRUB0 \<Longrightarrow> c \<noteq> ZRUB1 \<Longrightarrow>
   c AND 0x7f \<noteq> XON \<Longrightarrow> c AND 0x7f \<noteq> XOFF \<Longrightarrow>
     zdlRead tr = (Inr (c XOR 0x40, 0), tr\<lparr>inp := bs, canCount := 0\<rparr>)"
  apply (subst zdlRead.simps)
  apply (simp add: readByteStrip_plain Let_def)
  apply (subst zdlEscape.simps)
  apply (simp add: readByteStrip_plain)
  done



lemma esc_bits:
  fixes b :: byte
  assumes h: "b AND 0x60 = 0"
  shows "(b XOR 0x40) AND 0x40 = 0x40" and "(b XOR 0x40) AND 0x20 = 0"
proof -
  have "b AND 0x40 = (b AND 0x60) AND 0x40" by (simp add: and.assoc)
  then have b40: "b AND 0x40 = 0" using h by simp
  have "b AND 0x20 = (b AND 0x60) AND 0x20" by (simp add: and.assoc)
  then have b20: "b AND 0x20 = 0" using h by simp
  show "(b XOR 0x40) AND 0x40 = 0x40" by (simp add: bit.conj_xor_distrib2 b40)
  show "(b XOR 0x40) AND 0x20 = 0" by (simp add: bit.conj_xor_distrib2 b20)
qed

lemma esc_decode_facts:
  fixes b :: byte
  assumes h: "b AND 0x60 = 0"
  shows "0x40 \<le> b XOR 0x40" "(b XOR 0x40) XOR 0x40 = b"
    "(b XOR 0x40) AND 0x7f \<noteq> XON" "(b XOR 0x40) AND 0x7f \<noteq> XOFF"
    "b XOR 0x40 \<noteq> ZCRCE" "b XOR 0x40 \<noteq> ZCRCG" "b XOR 0x40 \<noteq> ZCRCQ"
    "b XOR 0x40 \<noteq> ZCRCW" "b XOR 0x40 \<noteq> ZRUB0" "b XOR 0x40 \<noteq> ZRUB1"
proof -
  define c where "c = b XOR 0x40"
  have c40: "c AND 0x40 = 0x40" and c20: "c AND 0x20 = 0"
    using esc_bits [OF h] by (simp_all add: c_def)
  have "c AND 0x40 \<le> c" by (rule word_and_le2)
  then show "0x40 \<le> b XOR 0x40" using c40 by (simp add: c_def)
  show "(b XOR 0x40) XOR 0x40 = b" by (simp add: xor.assoc)
  have m: "(c AND 0x7f) AND 0x40 = 0x40" using c40 by (simp add: and.assoc)
  show "(b XOR 0x40) AND 0x7f \<noteq> XON" using m by (auto simp: c_def)
  show "(b XOR 0x40) AND 0x7f \<noteq> XOFF" using m by (auto simp: c_def)
  show "b XOR 0x40 \<noteq> ZCRCE" "b XOR 0x40 \<noteq> ZCRCG" "b XOR 0x40 \<noteq> ZCRCQ"
    "b XOR 0x40 \<noteq> ZCRCW" "b XOR 0x40 \<noteq> ZRUB0" "b XOR 0x40 \<noteq> ZRUB1"
    using c20 by (auto simp: c_def)
qed


lemma unat_and_7f: "unat ((b::byte) AND 0x7f) = unat b mod 128"
proof -
  have "(0x7f::byte) = mask 7" by (simp add: mask_eq_exp_minus_1)
  then have "b AND 0x7f = take_bit 7 b" by (simp add: take_bit_eq_mask)
  moreover have "unat (take_bit 7 b) = take_bit 7 (unat b)" by (rule unsigned_take_bit_eq)
  moreover have "take_bit 7 (unat b) = unat b mod 128" by (simp add: take_bit_eq_mod)
  ultimately show ?thesis by simp
qed
lemma byte_of_unat: "unat (b::byte) = n \<Longrightarrow> b = of_nat n"
  by auto
lemma strip_bytes:
  fixes b :: byte
  assumes "b AND 0x7f = XON \<or> b AND 0x7f = XOFF"
  shows "b = 0x11 \<or> b = 0x13 \<or> b = 0x91 \<or> b = 0x93"
proof -
  have lt: "unat b < 256" using unsigned_less [of b, where ?'a = nat] by simp
  from assms have "unat (b AND 0x7f) = 17 \<or> unat (b AND 0x7f) = 19" by auto
  then have m: "unat b mod 128 = 17 \<or> unat b mod 128 = 19" by (simp add: unat_and_7f)
  have d: "unat b div 128 = 0 \<or> unat b div 128 = 1" using lt by (auto simp: div_eq_0_iff le_less less_Suc_eq_le dest!: less_mult_imp_div_less [of _ 2 128, simplified])
  define q r where "q = unat b div 128" and "r = unat b mod 128"
  have e: "unat b = 128 * q + r" by (simp add: q_def r_def)
  from m d have "(q = 0 \<or> q = 1) \<and> (r = 17 \<or> r = 19)" by (simp add: q_def r_def)
  with e have "unat b = 17 \<or> unat b = 19 \<or> unat b = 145 \<or> unat b = 147" by auto
  then show ?thesis by (auto dest!: byte_of_unat)
qed

lemma escapeAllStep_apply:
  "escapeAllStep i t b = (if t b = escSend \<and> (b = i \<or> b = i OR 0x80) then escMust else t b)"
  by (auto simp: escapeAllStep_def Let_def)
lemma fold_escapeAllStep:
  "fold escapeAllStep is t b =
     (if t b = escSend \<and> (\<exists>i\<in>set is. b = i \<or> b = i OR 0x80) then escMust else t b)"
proof (induction "is" arbitrary: t)
  case Nil
  then show ?case by simp
next
  case (Cons i "is")
  show ?case
  proof (cases "t b = escSend \<and> (b = i \<or> b = i OR 0x80)")
    case True
    then have "escapeAllStep i t b = escMust" by (simp add: escapeAllStep_apply)
    with True show ?thesis by (simp add: Cons.IH)
  next
    case False
    then have "escapeAllStep i t b = t b" by (simp add: escapeAllStep_apply)
    with False show ?thesis by (auto simp add: Cons.IH)
  qed
qed
lemma low32: "\<forall>i \<in> set (map of_nat [0..<32]). (i::byte) AND 0x60 = 0 \<and> (i OR 0x80) AND 0x60 = 0"
  by code_simp

lemma table_shape:
  fixes b :: byte
  defines "L \<equiv> map of_nat [0..<32] :: byte list"
  defines "t0 \<equiv> (\<lambda>_::byte. escSend)
            (ZDLE := escMust, 0x10 := escMust, XON := escMust, XOFF := escMust,
             0x90 := escMust, 0x91 := escMust, 0x93 := escMust, 0x98 := escMust,
             0x0d := escIfAtCR, 0x8d := escIfAtCR)"
  shows "buildEscapeTable ea b =
     (if ea \<and> t0 b = escSend \<and> (\<exists>i\<in>set L. b = i \<or> b = i OR 0x80) then escMust else t0 b)"
proof (cases ea)
  case True
  have "buildEscapeTable ea b = fold escapeAllStep L t0 b"
    unfolding buildEscapeTable_def Let_def L_def t0_def using True by (simp only: if_True)
  then show ?thesis using True by (simp only: fold_escapeAllStep simp_thms)
next
  case False
  have "buildEscapeTable ea b = t0 b"
    unfolding buildEscapeTable_def Let_def L_def t0_def using False by (simp only: if_False)
  then show ?thesis using False by (simp only: simp_thms if_False)
qed

lemma table_nonSend: "buildEscapeTable ea b \<noteq> escSend \<Longrightarrow> b AND 0x60 = 0"
proof -
  assume a: "buildEscapeTable ea b \<noteq> escSend"
  define L :: "byte list" where "L = map of_nat [0..<32]"
  define t0 :: "byte \<Rightarrow> escClass" where "t0 = (\<lambda>_. escSend)
            (ZDLE := escMust, 0x10 := escMust, XON := escMust, XOFF := escMust,
             0x90 := escMust, 0x91 := escMust, 0x93 := escMust, 0x98 := escMust,
             0x0d := escIfAtCR, 0x8d := escIfAtCR)"
  have tc: "buildEscapeTable ea b = (if ea \<and> t0 b = escSend \<and> (\<exists>i\<in>set L. b = i \<or> b = i OR 0x80) then escMust else t0 b)"
    unfolding L_def t0_def by (rule table_shape)
  have t0: "t0 b \<noteq> escSend \<Longrightarrow> b AND 0x60 = 0"
    by (auto simp: t0_def split: if_splits)
  show ?thesis
  proof (cases "t0 b = escSend")
    case True
    with a tc obtain i where i: "i \<in> set L" "b = i \<or> b = i OR 0x80"
      by (cases "ea \<and> (\<exists>i\<in>set L. b = i \<or> b = i OR 0x80)") auto
    from low32 i(1) have "i AND 0x60 = 0 \<and> (i OR 0x80) AND 0x60 = 0"
      unfolding L_def by (rule bspec)
    with i(2) show ?thesis by blast
  next
    case False
    then show ?thesis by (rule t0)
  qed
qed

lemma table_must:
  assumes "b = 0x18 \<or> b = 0x11 \<or> b = 0x13 \<or> b = 0x91 \<or> b = 0x93"
  shows "buildEscapeTable ea b = escMust"
proof -
  define t0 :: "byte \<Rightarrow> escClass" where "t0 = (\<lambda>_. escSend)
            (ZDLE := escMust, 0x10 := escMust, XON := escMust, XOFF := escMust,
             0x90 := escMust, 0x91 := escMust, 0x93 := escMust, 0x98 := escMust,
             0x0d := escIfAtCR, 0x8d := escIfAtCR)"
  have "t0 b = escMust" using assms by (auto simp: t0_def)
  then show ?thesis
    unfolding table_shape t0_def [symmetric] by (simp only: if_cancel)
qed


text \<open>
  What the reading lemmas need of an escape table: \<open>readable strip t\<close> says that ZDLE
  is escaped, that only octets with bits 5 and 6 clear are, and that XON and XOFF
  with their parity variants are when the reader strips them.
\<close>

definition readable :: "bool \<Rightarrow> (byte \<Rightarrow> escClass) \<Rightarrow> bool" where
  "readable strip t \<longleftrightarrow>
     t ZDLE = escMust \<and> (\<forall>b. t b \<noteq> escSend \<longrightarrow> b AND 0x60 = 0)
     \<and> (strip \<longrightarrow> t 0x11 = escMust \<and> t 0x13 = escMust \<and> t 0x91 = escMust \<and> t 0x93 = escMust)"

lemma readable_build: "readable strip (buildEscapeTable ea)"
  unfolding readable_def using table_nonSend [of ea] table_must [of _ ea] by blast

lemma readable_minimal: "readable False ((\<lambda>_. escSend)(ZDLE := escMust))"
  by (simp add: readable_def)

lemma readable_mode:
  "(strip \<longrightarrow> mode \<noteq> EscapeMinimal) \<Longrightarrow> readable strip (escapeTableFor mode)"
  by (cases mode) (auto simp: escapeTableFor_def readable_build intro: readable_minimal)

lemma readByteStrip_keep:
  "inp tr = b # bs \<Longrightarrow> \<not> stripXonXoff tr \<Longrightarrow> readByteStrip tr = (Inr b, tr\<lparr>inp := bs\<rparr>)"
  by (subst readByteStrip.simps) (simp add: readByte_cons)

lemma zdlRead_plain_gen:
  assumes "inp tr = b # bs" "b \<noteq> ZDLE"
    and "stripXonXoff tr \<longrightarrow> b AND 0x7f \<noteq> XON \<and> b AND 0x7f \<noteq> XOFF"
  shows "zdlRead tr = (Inr (b, 0), tr\<lparr>inp := bs, canCount := 0\<rparr>)"
proof (cases "stripXonXoff tr")
  case True
  with assms show ?thesis by (intro zdlRead_plain) simp_all
next
  case False
  with assms show ?thesis
    by (subst zdlRead.simps) (simp add: readByteStrip_keep)
qed


section \<open>The wire image of escaped octets\<close>

text \<open>
  Auxiliary functions for the proofs: \<open>escWire\<close> is the octet sequence
  \<open>writeEscaped\<close> emits for a payload given the table and the last octet sent,
  \<open>escLast\<close> the last octet sent afterwards, and \<open>emitted\<close> what a send
  function appended to the stream.
\<close>

fun escWire :: "(byte \<Rightarrow> escClass) \<Rightarrow> byte \<Rightarrow> byte list \<Rightarrow> byte list" where
  "escWire t l [] = []"
| "escWire t l (b # bs) =
     (if escapeRequired t b l then ZDLE # (b XOR 0x40) # escWire t (b XOR 0x40) bs
      else b # escWire t b bs)"

fun escLast :: "(byte \<Rightarrow> escClass) \<Rightarrow> byte \<Rightarrow> byte list \<Rightarrow> byte" where
  "escLast t l [] = l"
| "escLast t l (b # bs) =
     (if escapeRequired t b l then escLast t (b XOR 0x40) bs else escLast t b bs)"

definition emitted :: "transportWriter \<Rightarrow> transportWriter \<Rightarrow> byte list" where
  "emitted tw tw' = drop (length (out tw)) (out tw')"

lemma writeEscapedByte_eq:
  "writeEscapedByte b tw =
     tw\<lparr>out := out tw @ escWire (table tw) (lastSent tw) [b],
        lastSent := escLast (table tw) (lastSent tw) [b]\<rparr>"
  by (simp add: writeEscapedByte_def escapeByte_def)

lemma writeEscaped_eq:
  "writeEscaped bs tw =
     tw\<lparr>out := out tw @ escWire (table tw) (lastSent tw) bs,
        lastSent := escLast (table tw) (lastSent tw) bs\<rparr>"
proof (induction bs arbitrary: tw)
  case Nil
  show ?case by simp
next
  case (Cons b bs)
  show ?case
    by (simp add: Cons.IH writeEscapedByte_def escapeByte_def)
qed

lemma escWire_append:
  "escWire t l (xs @ ys) = escWire t l xs @ escWire t (escLast t l xs) ys"
  by (induction xs arbitrary: l) auto

lemma escLast_append:
  "escLast t l (xs @ ys) = escLast t (escLast t l xs) ys"
  by (induction xs arbitrary: l) auto

lemma zdlRead_escWire1_gen:
  assumes t: "readable (stripXonXoff tr) t" and c: "canCount tr < 4"
    and i: "inp tr = escWire t l [b] @ rest"
  shows "zdlRead tr = (Inr (b, 0), tr\<lparr>inp := rest, canCount := 0\<rparr>)"
proof (cases "escapeRequired t b l")
  case True
  then have "t b \<noteq> escSend" by (auto simp: escapeRequired_def split: if_splits)
  then have h: "b AND 0x60 = 0" using t by (simp add: readable_def)
  from True i have i': "inp tr = ZDLE # (b XOR 0x40) # rest" by simp
  show ?thesis
    using zdlRead_escaped [OF i' c esc_decode_facts(1) [OF h] esc_decode_facts(5-10) [OF h]
        esc_decode_facts(3,4) [OF h]]
    by (simp add: esc_decode_facts(2) [OF h])
next
  case False
  then have nm: "t b \<noteq> escMust" by (auto simp: escapeRequired_def split: if_splits)
  have z: "b \<noteq> ZDLE" using nm t by (auto simp: readable_def)
  have x: "stripXonXoff tr \<longrightarrow> b AND 0x7f \<noteq> XON \<and> b AND 0x7f \<noteq> XOFF"
  proof
    assume s: "stripXonXoff tr"
    then have "\<not> (b = 0x11 \<or> b = 0x13 \<or> b = 0x91 \<or> b = 0x93)"
      using nm t by (auto simp: readable_def)
    then show "b AND 0x7f \<noteq> XON \<and> b AND 0x7f \<noteq> XOFF"
      using strip_bytes [of b] by auto
  qed
  from False i have "inp tr = b # rest" by simp
  then show ?thesis using z x by (rule zdlRead_plain_gen)
qed

lemma zdlReadN_escWire_gen:
  assumes t: "readable strip t"
  shows "stripXonXoff tr = strip \<Longrightarrow> canCount tr = 0 \<Longrightarrow> inp tr = escWire t l bs @ rest \<Longrightarrow>
     zdlReadN (length bs) msg fe tr = (Inr bs, tr\<lparr>inp := rest\<rparr>)"
proof (induction bs arbitrary: tr l)
  case Nil
  then show ?case by simp
next
  case (Cons b bs)
  define l' where "l' = escLast t l [b]"
  define tr1 where "tr1 = tr\<lparr>inp := escWire t l' bs @ rest, canCount := 0\<rparr>"
  have i: "inp tr = escWire t l [b] @ (escWire t l' bs @ rest)"
    using Cons.prems(3) escWire_append [of t l "[b]" bs] by (simp add: l'_def)
  have c: "canCount tr < 4" using Cons.prems(2) by simp
  have t': "readable (stripXonXoff tr) t" using t Cons.prems(1) by simp
  have r1: "zdlRead tr = (Inr (b, 0), tr1)"
    using zdlRead_escWire1_gen [OF t' c i] by (simp add: tr1_def)
  have "zdlReadN (length bs) msg fe tr1 = (Inr bs, tr1\<lparr>inp := rest\<rparr>)"
    by (rule Cons.IH) (simp_all add: tr1_def Cons.prems(1))
  then show ?case using r1 Cons.prems(2) by (simp add: tr1_def)
qed

lemma zdlRead_escWire1:
  assumes t: "t = buildEscapeTable ea" and c: "canCount tr < 4"
    and i: "inp tr = escWire t l [b] @ rest"
  shows "zdlRead tr = (Inr (b, 0), tr\<lparr>inp := rest, canCount := 0\<rparr>)"
  using readable_build [of "stripXonXoff tr" ea] c i unfolding t [symmetric]
  by (rule zdlRead_escWire1_gen)

lemma zdlReadN_escWire:
  assumes t: "t = buildEscapeTable ea"
  shows "canCount tr = 0 \<Longrightarrow> inp tr = escWire t l bs @ rest \<Longrightarrow>
     zdlReadN (length bs) msg fe tr = (Inr bs, tr\<lparr>inp := rest\<rparr>)"
  using zdlReadN_escWire_gen [of "stripXonXoff tr" t tr l bs rest msg fe]
    readable_build [of "stripXonXoff tr" ea]
  by (simp add: t)

section \<open>Subpacket round trip\<close>






lemma length_le_bytes32 [simp]: "length (le_bytes32 v) = 4"
  by (simp add: le_bytes32_def)


lemma setEscapeAll_mode:
  "setEscapeAll ea tw = setEscapeMode (if ea then EscapeAll else EscapeStandard) tw"
  by (simp add: setEscapeAll_def setEscapeMode_def escapeTableFor_def)



section \<open>Header round trip\<close>

definition hexWire :: "byte list \<Rightarrow> byte list" where
  "hexWire bs =
     concat (map (\<lambda>b. [hexDigits ! unat (drop_bit 4 b), hexDigits ! unat (b AND 0x0f)]) bs)"

lemma hexWire_simps [simp]:
  "hexWire [] = []"
  "hexWire (b # bs) = hexDigits ! unat (drop_bit 4 b) # hexDigits ! unat (b AND 0x0f) # hexWire bs"
  by (simp_all add: hexWire_def)

lemma hex_nibble_list:
  "list_all (\<lambda>n. hexVal ((hexDigits ! n) AND 0x7f) = Some (of_nat n)) [0..<16]"
  by code_simp

lemma hex_nibble:
  "n < 16 \<Longrightarrow> hexVal ((hexDigits ! n) AND 0x7f) = Some (of_nat n)"
  using hex_nibble_list by (simp add: list_all_iff)

lemma unat_hi_nibble: "unat (drop_bit 4 (b::byte)) < 16"
proof -
  have "unat b < 256" using unsigned_less [of b, where ?'a = nat] by simp
  then have "unat b div 16 < 16" by (intro less_mult_imp_div_less) simp
  moreover have "unat (drop_bit 4 b) = drop_bit 4 (unat b)" by (rule unat_drop_bit_eq)
  moreover have "drop_bit 4 (unat b) = unat b div 16" by (simp add: drop_bit_eq_div)
  ultimately show ?thesis by simp
qed

lemma unat_lo_nibble: "unat ((b::byte) AND 0x0f) < 16"
proof -
  have "(0x0f::byte) = mask 4" by (simp add: mask_eq_exp_minus_1)
  then have "b AND 0x0f = take_bit 4 b" by (simp add: take_bit_eq_mask)
  moreover have "unat (take_bit 4 b) = take_bit 4 (unat b)" by (rule unsigned_take_bit_eq)
  moreover have "take_bit 4 (unat b) = unat b mod 16" by (simp add: take_bit_eq_mod)
  ultimately show ?thesis by simp
qed

lemma nibble_recombine: "push_bit 4 (drop_bit 4 b) OR (b AND 0x0f) = (b::byte)"
proof -
  have m: "(0x0f::byte) = mask 4" by (simp add: mask_eq_exp_minus_1)
  show ?thesis
    unfolding m
    by (rule bit_word_eqI) (auto simp: bit_simps not_le)
qed

lemma readHex_hexWire:
  assumes "inp tr = hexWire [b] @ rest"
  shows "readHex tr = (Inr b, tr\<lparr>inp := rest\<rparr>)"
proof -
  define h where "h = hexDigits ! unat (drop_bit 4 b)"
  define l where "l = hexDigits ! unat (b AND 0x0f)"
  have hv: "hexVal (h AND 0x7f) = Some (drop_bit 4 b)"
    using hex_nibble [OF unat_hi_nibble [of b]] by (simp add: h_def)
  have lv: "hexVal (l AND 0x7f) = Some (b AND 0x0f)"
    using hex_nibble [OF unat_lo_nibble [of b]] by (simp add: l_def)
  have i: "inp tr = h # l # rest" using assms by (simp add: h_def l_def)
  show ?thesis
    by (simp add: readHex_def readByte_cons [OF i] readByte_cons [of "tr\<lparr>inp := l # rest\<rparr>" l rest]
          Let_def hv lv nibble_recombine)
qed

lemma readHexN_hexWire:
  "inp tr = hexWire bs @ rest \<Longrightarrow> readHexN (length bs) tr = (Inr bs, tr\<lparr>inp := rest\<rparr>)"
proof (induction bs arbitrary: tr)
  case Nil
  then show ?case by simp
next
  case (Cons b bs)
  have i: "inp tr = hexWire [b] @ (hexWire bs @ rest)" using Cons.prems by simp
  have r: "readHex tr = (Inr b, tr\<lparr>inp := hexWire bs @ rest\<rparr>)"
    by (rule readHex_hexWire [OF i])
  have "readHexN (length bs) (tr\<lparr>inp := hexWire bs @ rest\<rparr>) =
          (Inr bs, tr\<lparr>inp := hexWire bs @ rest\<rparr>\<lparr>inp := rest\<rparr>)"
    by (rule Cons.IH) simp
  then show ?case using r by simp
qed

lemma scanForPad_hex_start:
  assumes "inp tr = ZPAD # ZPAD # ZDLE # enc # rest"
    and "enc = ZBIN \<or> enc = ZHEX \<or> enc = ZBIN32"
  shows "scanForPad tr = (Inr enc, tr\<lparr>inp := rest, canCount := 0, garbageCount := 0\<rparr>)"
  unfolding scanForPad_def
  apply (subst scanLoop.simps)
  using assms
  apply (auto simp: readByte_cons Let_def)
  done

lemma scanForPad_bin_start:
  assumes "inp tr = ZPAD # ZDLE # enc # rest"
    and "enc = ZBIN \<or> enc = ZHEX \<or> enc = ZBIN32"
  shows "scanForPad tr = (Inr enc, tr\<lparr>inp := rest, canCount := 0, garbageCount := 0\<rparr>)"
  unfolding scanForPad_def
  apply (subst scanLoop.simps)
  using assms
  apply (auto simp: readByte_cons Let_def)
  done

definition hexHeaderDigits :: "Header \<Rightarrow> byte list" where
  "hexHeaderDigits hdr =
     hexWire (headerPayload hdr @
       [ucast (drop_bit 8 (crc16Calc (headerPayload hdr))),
        ucast (crc16Calc (headerPayload hdr) AND 0xff)])"

lemma fold_writeHex:
  "fold writeHex bs tw = tw\<lparr>out := out tw @ hexWire bs\<rparr>"
  by (induction bs arbitrary: tw) (simp_all add: writeHex_def)

lemma sendHexHeader_emitted:
  "emitted tw (sendHexHeader hdr tw) =
     [ZPAD, ZPAD, ZDLE, ZHEX] @ hexHeaderDigits hdr @ [0x0d, 0x0a] @
     (if Type hdr \<noteq> ZACK \<and> Type hdr \<noteq> ZFIN then [XON] else [])"
  by (simp add: emitted_def sendHexHeader_def hexHeaderDigits_def Let_def writeRaw_def
        writeByte_def writeHex_def fold_writeHex hexWire_def)

lemma recvHexHeader_digits:
  assumes "inp tr = hexHeaderDigits hdr @ tail"
  shows "readHexN 7 tr =
           (Inr (headerPayload hdr @
                  [ucast (drop_bit 8 (crc16Calc (headerPayload hdr))),
                   ucast (crc16Calc (headerPayload hdr) AND 0xff)]), tr\<lparr>inp := tail\<rparr>)"
proof -
  define bs where "bs = headerPayload hdr @
       [ucast (drop_bit 8 (crc16Calc (headerPayload hdr))),
        ucast (crc16Calc (headerPayload hdr) AND 0xff)]"
  have l: "length bs = 7" by (simp add: bs_def headerPayload_def)
  have "inp tr = hexWire bs @ tail" using assms by (simp only: hexHeaderDigits_def bs_def)
  then have "readHexN (length bs) tr = (Inr bs, tr\<lparr>inp := tail\<rparr>)"
    by (rule readHexN_hexWire)
  then have "readHexN 7 tr = (Inr bs, tr\<lparr>inp := tail\<rparr>)" by (simp only: l)
  then show ?thesis by (simp only: bs_def)
qed

lemma recvHexHeader_crlf:
  assumes i: "inp tr = hexHeaderDigits hdr @ cr # lf # rest"
    and cr: "cr AND 0x7f = 0x0d" and lf: "lf AND 0x7f = 0x0a"
  shows "recvHexHeader tr =
           (Inr (hdr\<lparr>Encoding := ZHEX\<rparr>),
            tr\<lparr>inp := (if Type hdr \<noteq> ZACK \<and> Type hdr \<noteq> ZFIN \<and> rest \<noteq> []
                           \<and> hd rest AND 0x7f = XON then tl rest else rest)\<rparr>)"
proof -
  have v: "crc16Verify (headerPayload hdr @
       [ucast (drop_bit 8 (crc16Calc (headerPayload hdr))),
        ucast (crc16Calc (headerPayload hdr) AND 0xff)])"
    by (rule crc16_verify_calc)
  have h: "\<lparr>Encoding = ZHEX, Type = Type hdr,
            Data = \<lparr>d0 = d0 (Data hdr), d1 = d1 (Data hdr), d2 = d2 (Data hdr), d3 = d3 (Data hdr)\<rparr>\<rparr>
           = hdr\<lparr>Encoding := ZHEX\<rparr>"
    by simp
  show ?thesis
    unfolding recvHexHeader_def recvHexHeader_digits [OF i]
    using v cr lf
    apply (simp add: Let_def headerPayload_def readByte_cons h)
    apply (cases rest)
     apply (auto simp: readByte_cons)
    done
qed

lemma recvHexHeader_lf_only:
  assumes i: "inp tr = hexHeaderDigits hdr @ lf # rest"
    and lf: "lf AND 0x7f = 0x0a"
  shows "recvHexHeader tr = (Inr (hdr\<lparr>Encoding := ZHEX\<rparr>), tr\<lparr>inp := rest\<rparr>)"
proof -
  have v: "crc16Verify (headerPayload hdr @
       [ucast (drop_bit 8 (crc16Calc (headerPayload hdr))),
        ucast (crc16Calc (headerPayload hdr) AND 0xff)])"
    by (rule crc16_verify_calc)
  have h: "\<lparr>Encoding = ZHEX, Type = Type hdr,
            Data = \<lparr>d0 = d0 (Data hdr), d1 = d1 (Data hdr), d2 = d2 (Data hdr), d3 = d3 (Data hdr)\<rparr>\<rparr>
           = hdr\<lparr>Encoding := ZHEX\<rparr>"
    by simp
  have n: "lf AND 0x7f \<noteq> 0x0d" using lf by simp
  show ?thesis
    unfolding recvHexHeader_def recvHexHeader_digits [OF i]
    using v lf n
    by (simp add: Let_def headerPayload_def readByte_cons h)
qed

lemma recvHexHeader_cr_only:
  assumes i: "inp tr = hexHeaderDigits hdr @ cr # x # rest"
    and cr: "cr AND 0x7f = 0x0d" and x: "x AND 0x7f \<noteq> 0x0a"
  shows "recvHexHeader tr = (Inl (ErrExpectedLF x), tr\<lparr>inp := rest\<rparr>)"
proof -
  have v: "crc16Verify (headerPayload hdr @
       [ucast (drop_bit 8 (crc16Calc (headerPayload hdr))),
        ucast (crc16Calc (headerPayload hdr) AND 0xff)])"
    by (rule crc16_verify_calc)
  show ?thesis
    unfolding recvHexHeader_def recvHexHeader_digits [OF i]
    using v cr x
    by (simp add: Let_def headerPayload_def readByte_cons)
qed

lemma recvHexHeader_cr_eof:
  assumes i: "inp tr = hexHeaderDigits hdr @ [cr]"
    and cr: "cr AND 0x7f = 0x0d"
  shows "fst (recvHexHeader tr) = Inl ErrRead"
proof -
  have v: "crc16Verify (headerPayload hdr @
       [ucast (drop_bit 8 (crc16Calc (headerPayload hdr))),
        ucast (crc16Calc (headerPayload hdr) AND 0xff)])"
    by (rule crc16_verify_calc)
  show ?thesis
    unfolding recvHexHeader_def recvHexHeader_digits [OF i]
    using v cr
    by (simp add: Let_def headerPayload_def readByte_cons readByte_def)
qed

lemma escWire_two:
  "escWire t l [a] @ escWire t (escLast t l [a]) [b] = escWire t l [a, b]"
  by simp

lemma sendBinHeader_emitted:
  "emitted tw (sendBinHeader crc32 hdr tw) =
     [ZPAD, ZDLE, if crc32 then ZBIN32 else ZBIN] @
     escWire (table tw) (if crc32 then ZBIN32 else ZBIN)
       (headerPayload hdr @
        (if crc32 then le_bytes32 (crc32Calc (headerPayload hdr))
         else [ucast (drop_bit 8 (crc16Calc (headerPayload hdr))),
               ucast (crc16Calc (headerPayload hdr) AND 0xff)]))"
  by (simp add: emitted_def sendBinHeader_def Let_def writeRaw_def writeEscaped_eq
        writeEscapedByte_eq escWire_append escLast_append escWire_two
      del: escWire.simps(2) escLast.simps(2))

lemma crc32_verify_calc: "length p = 5 \<Longrightarrow> crc32Verify (p @ le_bytes32 (crc32Calc p))"
  by (simp add: crc32Verify_def le_word32_le_bytes32)

lemma length_headerPayload [simp]: "length (headerPayload hdr) = 5"
  by (simp add: headerPayload_def)

lemma header_of_payload:
  "\<lparr>Encoding = e, Type = headerPayload hdr ! 0,
    Data = \<lparr>d0 = headerPayload hdr ! 1, d1 = headerPayload hdr ! 2,
            d2 = headerPayload hdr ! 3, d3 = headerPayload hdr ! 4\<rparr>\<rparr> = hdr\<lparr>Encoding := e\<rparr>"
  by (simp add: headerPayload_def)

lemma recvBinHeader_wire:
  assumes t: "readable (stripXonXoff tr) t" and c: "canCount tr = 0"
    and i: "inp tr = escWire t l
       (headerPayload hdr @
        (if crc32 then le_bytes32 (crc32Calc (headerPayload hdr))
         else [ucast (drop_bit 8 (crc16Calc (headerPayload hdr))),
               ucast (crc16Calc (headerPayload hdr) AND 0xff)])) @ rest"
  shows "recvBinHeader crc32 tr =
           (Inr (hdr\<lparr>Encoding := (if crc32 then ZBIN32 else ZBIN)\<rparr>), tr\<lparr>inp := rest\<rparr>)"
proof -
  define p where "p = headerPayload hdr"
  define cb where "cb = (if crc32 then le_bytes32 (crc32Calc p)
         else [ucast (drop_bit 8 (crc16Calc p)), ucast (crc16Calc p AND 0xff)])"
  define l1 where "l1 = escLast t l p"
  define tr1 where "tr1 = tr\<lparr>inp := escWire t l1 cb @ rest\<rparr>"
  have lp: "length p = 5" by (simp add: p_def)
  have i1: "inp tr = escWire t l p @ (escWire t l1 cb @ rest)"
    using i by (simp add: escWire_append p_def cb_def l1_def)
  have r1: "zdlReadN 5 msg fe tr = (Inr p, tr1)" for msg fe
    using zdlReadN_escWire_gen [OF t refl c i1, of msg fe] unfolding lp tr1_def .
  have c1: "canCount tr1 = 0" using c by (simp add: tr1_def)
  have s1: "stripXonXoff tr1 = stripXonXoff tr" by (simp add: tr1_def)
  have i2: "inp tr1 = escWire t l1 cb @ rest" by (simp add: tr1_def)
  have r2: "zdlReadN (length cb) msg fe tr1 = (Inr cb, tr\<lparr>inp := rest\<rparr>)" for msg fe
    using zdlReadN_escWire_gen [OF t s1 c1 i2, of msg fe] by (simp add: tr1_def)
  have hp: "\<lparr>Encoding = e, Type = p ! 0,
    Data = \<lparr>d0 = p ! Suc 0, d1 = p ! 2, d2 = p ! 3, d3 = p ! 4\<rparr>\<rparr> = hdr\<lparr>Encoding := e\<rparr>" for e
    unfolding p_def using header_of_payload [of e hdr] by simp
  show ?thesis
  proof (cases crc32)
    case True
    then have cb: "cb = le_bytes32 (crc32Calc p)" by (simp add: cb_def)
    have lcb: "length cb = 4" by (simp add: cb)
    have r2': "zdlReadN 4 msg fe tr1 = (Inr cb, tr\<lparr>inp := rest\<rparr>)" for msg fe
      using r2 [of msg fe] unfolding lcb .
    have v: "crc32Verify (p @ cb)" unfolding cb by (rule crc32_verify_calc [OF lp])
    show ?thesis
      unfolding recvBinHeader_def r1
      using True by (simp add: Let_def r2' v hp)
  next
    case False
    then have cb: "cb = [ucast (drop_bit 8 (crc16Calc p)), ucast (crc16Calc p AND 0xff)]"
      by (simp add: cb_def)
    have lcb: "length cb = 2" by (simp add: cb)
    have r2': "zdlReadN 2 msg fe tr1 = (Inr cb, tr\<lparr>inp := rest\<rparr>)" for msg fe
      using r2 [of msg fe] unfolding lcb .
    have v: "crc16Verify (p @ cb)" unfolding cb by (rule crc16_verify_calc)
    show ?thesis
      unfolding recvBinHeader_def r1
      using False by (simp add: Let_def r2' v hp)
  qed
qed

lemma recvHeader_bin_wire:
  assumes t: "readable (stripXonXoff tr) (table tw)"
  shows "recvHeader (tr\<lparr>inp := emitted tw (sendBinHeader crc32 hdr tw) @ rest\<rparr>) =
     (Inr (hdr\<lparr>Encoding := (if crc32 then ZBIN32 else ZBIN)\<rparr>),
      tr\<lparr>inp := rest, canCount := 0, garbageCount := 0\<rparr>)"
proof -
  define enc where "enc = (if crc32 then ZBIN32 else ZBIN)"
  define body where "body = escWire (table tw) enc
       (headerPayload hdr @
        (if crc32 then le_bytes32 (crc32Calc (headerPayload hdr))
         else [ucast (drop_bit 8 (crc16Calc (headerPayload hdr))),
               ucast (crc16Calc (headerPayload hdr) AND 0xff)]))"
  define tr0 where "tr0 = tr\<lparr>inp := emitted tw (sendBinHeader crc32 hdr tw) @ rest\<rparr>"
  define tr1 where "tr1 = tr\<lparr>inp := body @ rest, canCount := 0, garbageCount := 0\<rparr>"
  have i0: "inp tr0 = ZPAD # ZDLE # enc # inp tr1"
    by (simp add: tr0_def tr1_def sendBinHeader_emitted enc_def body_def)
  have e: "enc = ZBIN \<or> enc = ZHEX \<or> enc = ZBIN32" by (simp add: enc_def)
  have s: "scanForPad tr0 = (Inr enc, tr1)"
    using scanForPad_bin_start [OF i0 e] by (simp add: tr0_def tr1_def)
  have t1: "readable (stripXonXoff tr1) (table tw)" using t by (simp add: tr1_def)
  have b: "recvBinHeader crc32 tr1 = (Inr (hdr\<lparr>Encoding := enc\<rparr>), tr1\<lparr>inp := rest\<rparr>)"
    unfolding enc_def
    by (rule recvBinHeader_wire [OF t1, where l = enc]) (simp_all add: tr1_def body_def)
  show ?thesis
    using s b by (cases crc32) (simp_all add: recvHeader_def resetGarbage_def tr0_def tr1_def enc_def)
qed

text \<open>
  C2. For every frame type and every four data octets: \<open>recvHeader\<close> over the octets
  appended by \<open>sendHexHeader\<close> returns the same type and data with encoding ZHEX,
  and over the octets appended by \<open>sendBinHeader\<close> returns them with encoding ZBIN
  when the writer used CRC-16 and ZBIN32 when it used CRC-32. For the binary header
  this holds with the writer's table built for either value of \<open>escapeAll\<close>, and
  with the table of each of the three escape modes of a session, provided that a
  reader that strips XON and XOFF is not paired with a writer in \<open>EscapeMinimal\<close>
  mode (\<open>NewSession\<close> never pairs them).
\<close>

theorem header_roundtrip:
  "recvHeader (tr\<lparr>inp := emitted tw (sendHexHeader hdr tw) @ rest\<rparr>) =
     (Inr (hdr\<lparr>Encoding := ZHEX\<rparr>), tr\<lparr>inp := rest, canCount := 0, garbageCount := 0\<rparr>) \<and>
   recvHeader (tr\<lparr>inp := emitted (setEscapeAll ea tw)
                              (sendBinHeader crc32 hdr (setEscapeAll ea tw)) @ rest\<rparr>) =
     (Inr (hdr\<lparr>Encoding := (if crc32 then ZBIN32 else ZBIN)\<rparr>),
      tr\<lparr>inp := rest, canCount := 0, garbageCount := 0\<rparr>) \<and>
   ((stripXonXoff tr \<longrightarrow> mode \<noteq> EscapeMinimal) \<longrightarrow>
    recvHeader (tr\<lparr>inp := emitted (setEscapeMode mode tw)
                              (sendBinHeader crc32 hdr (setEscapeMode mode tw)) @ rest\<rparr>) =
     (Inr (hdr\<lparr>Encoding := (if crc32 then ZBIN32 else ZBIN)\<rparr>),
      tr\<lparr>inp := rest, canCount := 0, garbageCount := 0\<rparr>))"
proof (intro conjI impI)
  define xon where "xon = (if Type hdr \<noteq> ZACK \<and> Type hdr \<noteq> ZFIN then [XON] else [])"
  define tr0 where "tr0 = tr\<lparr>inp := emitted tw (sendHexHeader hdr tw) @ rest\<rparr>"
  define tr1 where "tr1 = tr\<lparr>inp := hexHeaderDigits hdr @ 0x0d # 0x0a # (xon @ rest), canCount := 0, garbageCount := 0\<rparr>"
  have i0: "inp tr0 = ZPAD # ZPAD # ZDLE # ZHEX # inp tr1"
    by (simp add: tr0_def tr1_def sendHexHeader_emitted xon_def)
  have s: "scanForPad tr0 = (Inr ZHEX, tr1)"
    using scanForPad_hex_start [OF i0] by (simp add: tr0_def tr1_def)
  have i1: "inp tr1 = hexHeaderDigits hdr @ 0x0d # 0x0a # (xon @ rest)" by (simp add: tr1_def)
  have h: "recvHexHeader tr1 = (Inr (hdr\<lparr>Encoding := ZHEX\<rparr>), tr1\<lparr>inp := rest\<rparr>)"
    using recvHexHeader_crlf [OF i1] by (auto simp: xon_def)
  show "recvHeader (tr\<lparr>inp := emitted tw (sendHexHeader hdr tw) @ rest\<rparr>) =
     (Inr (hdr\<lparr>Encoding := ZHEX\<rparr>), tr\<lparr>inp := rest, canCount := 0, garbageCount := 0\<rparr>)"
    unfolding tr0_def [symmetric]
    by (simp add: recvHeader_def s h resetGarbage_def) (simp add: tr1_def)
next
  have "readable (stripXonXoff tr) (table (setEscapeAll ea tw))"
    by (simp add: setEscapeAll_def readable_build)
  then show "recvHeader (tr\<lparr>inp := emitted (setEscapeAll ea tw)
                              (sendBinHeader crc32 hdr (setEscapeAll ea tw)) @ rest\<rparr>) =
     (Inr (hdr\<lparr>Encoding := (if crc32 then ZBIN32 else ZBIN)\<rparr>),
      tr\<lparr>inp := rest, canCount := 0, garbageCount := 0\<rparr>)"
    by (rule recvHeader_bin_wire)
next
  assume "stripXonXoff tr \<longrightarrow> mode \<noteq> EscapeMinimal"
  then have "readable (stripXonXoff tr) (table (setEscapeMode mode tw))"
    by (simp add: setEscapeMode_def readable_mode)
  then show "recvHeader (tr\<lparr>inp := emitted (setEscapeMode mode tw)
                              (sendBinHeader crc32 hdr (setEscapeMode mode tw)) @ rest\<rparr>) =
     (Inr (hdr\<lparr>Encoding := (if crc32 then ZBIN32 else ZBIN)\<rparr>),
      tr\<lparr>inp := rest, canCount := 0, garbageCount := 0\<rparr>)"
    by (rule recvHeader_bin_wire)
qed

theorem header_roundtrip_witness:
  "\<not> stripXonXoff (s_tr (NewSession [] False \<lparr>offers = [], progress = []\<rparr>
                              (Some (zeroConfig\<lparr>EscapeMode := EscapeMinimal\<rparr>))))
   \<and> recvHeader
        ((s_tr (NewSession [] False \<lparr>offers = [], progress = []\<rparr>
                  (Some (zeroConfig\<lparr>EscapeMode := EscapeMinimal\<rparr>))))
           \<lparr>inp := emitted (setEscapeMode EscapeMinimal (newTransportWriterMode EscapeMinimal))
                     (sendBinHeader True
                        \<lparr>Encoding = 0, Type = ZRPOS,
                         Data = \<lparr>d0 = 0x18, d1 = 0x11, d2 = 0x0d, d3 = 0x93\<rparr>\<rparr>
                        (setEscapeMode EscapeMinimal (newTransportWriterMode EscapeMinimal)))
                   @ [ZPAD]\<rparr>) =
       (Inr \<lparr>Encoding = ZBIN32, Type = ZRPOS,
             Data = \<lparr>d0 = 0x18, d1 = 0x11, d2 = 0x0d, d3 = 0x93\<rparr>\<rparr>,
        (s_tr (NewSession [] False \<lparr>offers = [], progress = []\<rparr>
                 (Some (zeroConfig\<lparr>EscapeMode := EscapeMinimal\<rparr>))))
           \<lparr>inp := [ZPAD], canCount := 0, garbageCount := 0\<rparr>)"
  using header_roundtrip [of
      "newTransportWriterMode EscapeMinimal"
      "\<lparr>Encoding = 0, Type = ZRPOS, Data = \<lparr>d0 = 0x18, d1 = 0x11, d2 = 0x0d, d3 = 0x93\<rparr>\<rparr>"
      "[ZPAD]"
      "s_tr (NewSession [] False \<lparr>offers = [], progress = []\<rparr>
               (Some (zeroConfig\<lparr>EscapeMode := EscapeMinimal\<rparr>)))"
      False True EscapeMinimal]
  by (simp add: NewSession_def Let_def defaults_def zeroConfig_def newTransportReader_def)

section \<open>Hex header terminator\<close>

text \<open>
  C8 (amended). After the fourteen hex digits of a header with a valid CRC,
  \<open>recvHexHeader\<close> masks the terminator octets with 0x7F before comparing them. It
  accepts CR LF (then consumes a buffered XON, except after ZACK and ZFIN) and it
  accepts LF alone; a CR that is not followed by LF is an error: \<open>ErrExpectedLF\<close>
  for any other octet, the read error when the stream ends after the CR.
\<close>

theorem hex_terminator:
  "(cr AND 0x7f = 0x0d \<and> lf AND 0x7f = 0x0a \<longrightarrow>
      recvHexHeader (tr\<lparr>inp := hexHeaderDigits hdr @ cr # lf # rest\<rparr>) =
        (Inr (hdr\<lparr>Encoding := ZHEX\<rparr>),
         tr\<lparr>inp := (if Type hdr \<noteq> ZACK \<and> Type hdr \<noteq> ZFIN \<and> rest \<noteq> []
                        \<and> hd rest AND 0x7f = XON then tl rest else rest)\<rparr>)) \<and>
   (lf AND 0x7f = 0x0a \<longrightarrow>
      recvHexHeader (tr\<lparr>inp := hexHeaderDigits hdr @ lf # rest\<rparr>) =
        (Inr (hdr\<lparr>Encoding := ZHEX\<rparr>), tr\<lparr>inp := rest\<rparr>)) \<and>
   (cr AND 0x7f = 0x0d \<and> x AND 0x7f \<noteq> 0x0a \<longrightarrow>
      recvHexHeader (tr\<lparr>inp := hexHeaderDigits hdr @ cr # x # rest\<rparr>) =
        (Inl (ErrExpectedLF x), tr\<lparr>inp := rest\<rparr>)) \<and>
   (cr AND 0x7f = 0x0d \<longrightarrow>
      fst (recvHexHeader (tr\<lparr>inp := hexHeaderDigits hdr @ [cr]\<rparr>)) = Inl ErrRead)"
proof (intro conjI impI)
  assume "cr AND 0x7f = 0x0d \<and> lf AND 0x7f = 0x0a"
  then show "recvHexHeader (tr\<lparr>inp := hexHeaderDigits hdr @ cr # lf # rest\<rparr>) =
        (Inr (hdr\<lparr>Encoding := ZHEX\<rparr>),
         tr\<lparr>inp := (if Type hdr \<noteq> ZACK \<and> Type hdr \<noteq> ZFIN \<and> rest \<noteq> []
                        \<and> hd rest AND 0x7f = XON then tl rest else rest)\<rparr>)"
    using recvHexHeader_crlf [of "tr\<lparr>inp := hexHeaderDigits hdr @ cr # lf # rest\<rparr>" hdr cr lf rest]
    by simp
next
  assume "lf AND 0x7f = 0x0a"
  then show "recvHexHeader (tr\<lparr>inp := hexHeaderDigits hdr @ lf # rest\<rparr>) =
        (Inr (hdr\<lparr>Encoding := ZHEX\<rparr>), tr\<lparr>inp := rest\<rparr>)"
    using recvHexHeader_lf_only [of "tr\<lparr>inp := hexHeaderDigits hdr @ lf # rest\<rparr>" hdr lf rest]
    by simp
next
  assume "cr AND 0x7f = 0x0d \<and> x AND 0x7f \<noteq> 0x0a"
  then show "recvHexHeader (tr\<lparr>inp := hexHeaderDigits hdr @ cr # x # rest\<rparr>) =
        (Inl (ErrExpectedLF x), tr\<lparr>inp := rest\<rparr>)"
    using recvHexHeader_cr_only [of "tr\<lparr>inp := hexHeaderDigits hdr @ cr # x # rest\<rparr>" hdr cr x rest]
    by simp
next
  assume "cr AND 0x7f = 0x0d"
  then show "fst (recvHexHeader (tr\<lparr>inp := hexHeaderDigits hdr @ [cr]\<rparr>)) = Inl ErrRead"
    using recvHexHeader_cr_eof [of "tr\<lparr>inp := hexHeaderDigits hdr @ [cr]\<rparr>" hdr cr]
    by simp
qed

lemmas crc16_eval = crc16Calc_def crc16Finalize_def crc16Update_def crc16Step_def crc16Table_def
  crc16Shift_def crc16Verify_def

lemma zrqinit_digits:
  "hexHeaderDigits (makeHeader 0) =
     [0x30, 0x30, 0x30, 0x30, 0x30, 0x30, 0x30, 0x30, 0x30, 0x30, 0x30, 0x30, 0x30, 0x30]"
  by (simp add: hexHeaderDigits_def makeHeader_def headerPayload_def crc16_eval hexDigits_def)

theorem hex_terminator_witness:
  "recvHexHeader ((newTransportReader [] False 1200 0 True)
       \<lparr>inp := hexHeaderDigits (makeHeader 0) @ 0x8d # 0x8a # [0x91, ZPAD]\<rparr>) =
     (Inr ((makeHeader 0)\<lparr>Encoding := ZHEX\<rparr>), (newTransportReader [] False 1200 0 True)\<lparr>inp := [ZPAD]\<rparr>) \<and>
   recvHexHeader ((newTransportReader [] False 1200 0 True)
       \<lparr>inp := hexHeaderDigits (makeHeader 0) @ 0x0a # [ZPAD]\<rparr>) =
     (Inr ((makeHeader 0)\<lparr>Encoding := ZHEX\<rparr>), (newTransportReader [] False 1200 0 True)\<lparr>inp := [ZPAD]\<rparr>) \<and>
   recvHexHeader ((newTransportReader [] False 1200 0 True)
       \<lparr>inp := hexHeaderDigits (makeHeader 0) @ 0x0d # ZPAD # [ZPAD]\<rparr>) =
     (Inl (ErrExpectedLF ZPAD), (newTransportReader [] False 1200 0 True)\<lparr>inp := [ZPAD]\<rparr>) \<and>
   fst (recvHexHeader ((newTransportReader [] False 1200 0 True)
       \<lparr>inp := hexHeaderDigits (makeHeader 0) @ [0x0d]\<rparr>)) = Inl ErrRead"
  using hex_terminator [where cr = "0x8d" and lf = "0x8a" and tr = "newTransportReader [] False 1200 0 True"
        and hdr = "makeHeader 0" and rest = "[0x91, ZPAD]" and x = 0]
    hex_terminator [where cr = "0x0d" and lf = "0x0a" and tr = "newTransportReader [] False 1200 0 True"
        and hdr = "makeHeader 0" and rest = "[ZPAD]" and x = ZPAD]
  by (simp add: makeHeader_def)

theorem hex_cr_alone_counterexample:
  "recvHexHeader
     (newTransportReader
        [0x30, 0x30, 0x30, 0x30, 0x30, 0x30, 0x30, 0x30, 0x30, 0x30, 0x30, 0x30, 0x30, 0x30,
         0x0d, ZPAD, ZPAD, ZDLE, ZHEX] False 1200 0 True) =
   (Inl (ErrExpectedLF ZPAD), newTransportReader [ZPAD, ZDLE, ZHEX] False 1200 0 True)"
  using recvHexHeader_cr_only [of "newTransportReader
        [0x30, 0x30, 0x30, 0x30, 0x30, 0x30, 0x30, 0x30, 0x30, 0x30, 0x30, 0x30, 0x30, 0x30,
         0x0d, ZPAD, ZPAD, ZDLE, ZHEX] False 1200 0 True" "makeHeader 0" "0x0d" ZPAD "[ZPAD, ZDLE, ZHEX]"]
  by (simp add: zrqinit_digits newTransportReader_def)

section \<open>Abort detection\<close>



lemma scanLoop_can:
  assumes "inp tr = CAN # rest" "canCount tr < 4" "int (garbageCount tr) < garbageMax tr"
  shows "scanLoop tr = scanLoop (tr\<lparr>inp := rest, canCount := canCount tr + 1,
                                    garbageCount := garbageCount tr + 1\<rparr>)"
  using assms
  by (subst scanLoop.simps) (simp add: readByte_cons Let_def countGarbage_def garbageOver_def)

lemma scanLoop_can_abort:
  assumes "inp tr = CAN # rest" "canCount tr = 4"
  shows "fst (scanLoop tr) = Inl ErrAbortReceived"
  using assms
  by (subst scanLoop.simps) (simp add: readByte_cons Let_def)

lemma scanForPad_five_can:
  assumes g: "int (garbageCount tr) + 4 \<le> garbageMax tr"
  shows "fst (scanForPad (tr\<lparr>inp := replicate 5 CAN @ rest\<rparr>)) = Inl ErrAbortReceived"
proof -
  define t :: "nat \<Rightarrow> transportReader" where
    "t k = tr\<lparr>inp := replicate (5 - k) CAN @ rest, canCount := k,
              garbageCount := garbageCount tr + k\<rparr>" for k
  have step: "scanLoop (t k) = scanLoop (t (Suc k))" if "k < 4" for k
  proof -
    have "inp (t k) = CAN # (replicate (5 - Suc k) CAN @ rest)"
      using that by (simp add: t_def Suc_diff_Suc flip: replicate_Suc)
    from scanLoop_can [OF this] that g show ?thesis by (simp add: t_def)
  qed
  have "scanForPad (tr\<lparr>inp := replicate 5 CAN @ rest\<rparr>) = scanLoop (t 0)"
    by (simp add: scanForPad_def t_def)
  also have "\<dots> = scanLoop (t 1)" using step [of 0] by simp
  also have "\<dots> = scanLoop (t 2)" using step [of 1] by (simp add: numeral_2_eq_2)
  also have "\<dots> = scanLoop (t 3)" using step [of 2] by (simp add: numeral_3_eq_3 numeral_2_eq_2)
  also have "\<dots> = scanLoop (t 4)" using step [of 3] by (simp add: eval_nat_numeral)
  finally have "scanForPad (tr\<lparr>inp := replicate 5 CAN @ rest\<rparr>) = scanLoop (t 4)" .
  moreover have "fst (scanLoop (t 4)) = Inl ErrAbortReceived"
    by (rule scanLoop_can_abort [where rest = rest]) (simp_all add: t_def)
  ultimately show ?thesis by simp
qed




































lemmas rd_eval = readByte_def readByteStrip.simps zdlRead.simps zdlEscape.simps scanLoop.simps
  scanForPad_def newTransportReader_def Let_def countGarbage_def garbageOver_def



section \<open>Header accessors\<close>

text \<open>
  C3. The flag accessors and the position accessor read the same four payload octets
  in opposite orders: \<open>ZF0\<close> is \<open>Data[3]\<close>, \<open>ZF1\<close> is \<open>Data[2]\<close>, \<open>ZF2\<close> is
  \<open>Data[1]\<close>, \<open>ZF3\<close> is \<open>Data[0]\<close>, and \<open>Position\<close> is the little-endian 32-bit
  number whose least significant octet is \<open>Data[0]\<close>.
\<close>

theorem header_flags_position:
  "ZF0 h = d3 (Data h) \<and> ZF1 h = d2 (Data h) \<and> ZF2 h = d1 (Data h) \<and> ZF3 h = d0 (Data h) \<and>
   Position h = uint (d0 (Data h)) + 256 * uint (d1 (Data h))
                  + 65536 * uint (d2 (Data h)) + 16777216 * uint (d3 (Data h))"
  by (simp add: ZF0_def ZF1_def ZF2_def ZF3_def Position_def le_uint32_value)


section \<open>Read deadlines\<close>

definition quiet :: "transportReader \<Rightarrow> transportReader \<Rightarrow> bool" where
  "quiet tr tr' \<longleftrightarrow>
     timeout tr' = timeout tr \<and> deadlineCalls tr' = deadlineCalls tr \<and> ds tr' = ds tr
       \<and> length (inp tr') \<le> length (inp tr)"

lemma quiet_refl [simp]: "quiet tr tr"
  by (simp add: quiet_def)

lemma quiet_trans: "quiet a b \<Longrightarrow> quiet b c \<Longrightarrow> quiet a c"
  by (auto simp: quiet_def)

lemma quiet_upd [simp]:
  "quiet a (b\<lparr>canCount := c\<rparr>) = quiet a b"
  "quiet a (b\<lparr>garbageCount := g\<rparr>) = quiet a b"
  "quiet a (countGarbage b) = quiet a b"
  "quiet a (resetGarbage b) = quiet a b"
  "quiet (b\<lparr>canCount := c\<rparr>) a = quiet b a"
  "quiet (b\<lparr>garbageCount := g\<rparr>) a = quiet b a"
  "quiet (countGarbage b) a = quiet b a"
  by (simp_all add: quiet_def countGarbage_def resetGarbage_def)

lemma quiet_timeout: "quiet a b \<Longrightarrow> timeout a \<le> 0 \<Longrightarrow> timeout b \<le> 0"
  by (simp add: quiet_def)

lemma readByte_quiet: "timeout tr \<le> 0 \<Longrightarrow> quiet tr (snd (readByte tr))"
  by (auto simp: readByte_def quiet_def Let_def split: list.splits)

lemma readByteStrip_quiet: "timeout tr \<le> 0 \<Longrightarrow> quiet tr (snd (readByteStrip tr))"
proof (induction tr rule: readByteStrip.induct)
  case (1 tr)
  obtain r tr1 where rb: "readByte tr = (r, tr1)" by (cases "readByte tr")
  have q1: "quiet tr tr1" using readByte_quiet [OF "1.prems"] rb by simp
  show ?case
  proof (cases r)
    case (Inl e)
    with rb q1 show ?thesis by (simp add: readByteStrip.simps [of tr])
  next
    case (Inr b)
    show ?thesis
    proof (cases "stripXonXoff tr \<and> (b AND 0x7f = XON \<or> b AND 0x7f = XOFF)")
      case True
      have "quiet tr1 (snd (readByteStrip tr1))"
        using "1.IH" [OF rb [symmetric] Inr True] quiet_timeout [OF q1 "1.prems"] by simp
      with q1 have "quiet tr (snd (readByteStrip tr1))" by (rule quiet_trans)
      with rb Inr True show ?thesis by (simp add: readByteStrip.simps [of tr])
    next
      case False
      with rb Inr q1 show ?thesis by (auto simp add: readByteStrip.simps [of tr])
    qed
  qed
qed

lemma zdl_quiet_aux:
  "length (inp tr) = n \<Longrightarrow> timeout tr \<le> 0 \<Longrightarrow>
     quiet tr (snd (zdlRead tr)) \<and> quiet tr (snd (zdlEscape tr))"
proof (induction n arbitrary: tr rule: less_induct)
  case (less n)
  obtain r tr1 where rb: "readByteStrip tr = (r, tr1)" by (cases "readByteStrip tr")
  have q1: "quiet tr tr1" using readByteStrip_quiet [OF less.prems(2)] rb by simp
  have t1: "timeout tr1 \<le> 0" using quiet_timeout [OF q1 less.prems(2)] .
  show ?case
  proof (cases r)
    case (Inl e)
    with rb q1 show ?thesis by (simp add: zdlRead.simps [of tr] zdlEscape.simps [of tr])
  next
    case (Inr b)
    have lt: "length (inp tr1) < n"
      using readByteStrip_consumes [of tr b tr1] rb Inr less.prems(1) by simp
    have IH: "quiet tr (snd (zdlRead t)) \<and> quiet tr (snd (zdlEscape t))"
      if "inp t = inp tr1" "quiet tr1 t" for t
    proof -
      have "length (inp t) < n" using that lt by simp
      moreover have "timeout t \<le> 0" using quiet_timeout [OF that(2) t1] .
      ultimately have "quiet t (snd (zdlRead t)) \<and> quiet t (snd (zdlEscape t))"
        using less.IH [of "length (inp t)" t] by simp
      moreover have "quiet tr t" using q1 that(2) by (rule quiet_trans)
      ultimately show ?thesis by (blast intro: quiet_trans)
    qed
    have a: "quiet tr (snd (zdlEscape (tr1\<lparr>canCount := canCount tr1 + 1\<rparr>)))"
      using IH [of "tr1\<lparr>canCount := canCount tr1 + 1\<rparr>"] by simp
    have b: "quiet tr (snd (zdlRead (tr1\<lparr>canCount := canCount tr1 + 1\<rparr>)))"
      using IH [of "tr1\<lparr>canCount := canCount tr1 + 1\<rparr>"] by simp
    have c: "quiet tr (snd (zdlRead tr1))"
      using IH [of tr1] by simp
    show ?thesis
      using rb Inr q1 a b c
      by (simp add: zdlRead.simps [of tr] zdlEscape.simps [of tr] Let_def)
  qed
qed

lemma zdlRead_quiet: "timeout tr \<le> 0 \<Longrightarrow> quiet tr (snd (zdlRead tr))"
  using zdl_quiet_aux [OF refl] by simp


lemma readHex_quiet: "timeout tr \<le> 0 \<Longrightarrow> quiet tr (snd (readHex tr))"
proof -
  assume t: "timeout tr \<le> 0"
  obtain r tr1 where a: "readByte tr = (r, tr1)" by (cases "readByte tr")
  have q1: "quiet tr tr1" using readByte_quiet [OF t] a by simp
  obtain r2 tr2 where b: "readByte tr1 = (r2, tr2)" by (cases "readByte tr1")
  have q2: "quiet tr tr2"
    using readByte_quiet [OF quiet_timeout [OF q1 t]] b q1 by (auto intro: quiet_trans)
  show ?thesis
    using a b q1 q2
    by (auto simp: readHex_def Let_def split: sum.splits option.splits)
qed

lemma readHexN_quiet: "timeout tr \<le> 0 \<Longrightarrow> quiet tr (snd (readHexN n tr))"
proof (induction n arbitrary: tr)
  case 0
  show ?case by simp
next
  case (Suc n)
  obtain r tr1 where a: "readHex tr = (r, tr1)" by (cases "readHex tr")
  have q1: "quiet tr tr1" using readHex_quiet [OF Suc.prems] a by simp
  have "quiet tr1 (snd (readHexN n tr1))"
    using Suc.IH [OF quiet_timeout [OF q1 Suc.prems]] .
  with q1 have "quiet tr (snd (readHexN n tr1))" by (rule quiet_trans)
  with a q1 show ?case by (auto split: sum.splits prod.splits)
qed

lemma zdlReadN_quiet: "timeout tr \<le> 0 \<Longrightarrow> quiet tr (snd (zdlReadN n msg fe tr))"
proof (induction n arbitrary: tr)
  case 0
  show ?case by simp
next
  case (Suc n)
  obtain r tr1 where a: "zdlRead tr = (r, tr1)" by (cases "zdlRead tr")
  have q1: "quiet tr tr1" using zdlRead_quiet [OF Suc.prems] a by simp
  have "quiet tr1 (snd (zdlReadN n msg fe tr1))"
    using Suc.IH [OF quiet_timeout [OF q1 Suc.prems]] .
  with q1 have "quiet tr (snd (zdlReadN n msg fe tr1))" by (rule quiet_trans)
  with a q1 show ?case by (auto split: sum.splits prod.splits)
qed

definition qres :: "transportReader \<Rightarrow> (error + 'a) \<times> transportReader \<Rightarrow> bool" where
  "qres tr res \<longleftrightarrow> quiet tr (snd res)"

lemma qres_bind:
  assumes "\<And>e t. m = (Inl e, t) \<Longrightarrow> quiet tr t"
    and "\<And>x t. m = (Inr x, t) \<Longrightarrow> qres tr (g x t)"
  shows "qres tr (case m of (Inl e, t) \<Rightarrow> (Inl (h e), t) | (Inr x, t) \<Rightarrow> g x t)"
  using assms by (cases m) (auto simp: qres_def split: sum.splits)

lemma qres_if:
  assumes "c \<Longrightarrow> qres tr a" and "\<not> c \<Longrightarrow> qres tr b"
  shows "qres tr (if c then a else b)"
  using assms by simp

lemma qres_leaf: "quiet tr t \<Longrightarrow> qres tr (r, t)"
  by (simp add: qres_def)

lemma readByte_quiet_step:
  "readByte u = (r, v) \<Longrightarrow> timeout tr \<le> 0 \<Longrightarrow> quiet tr u \<Longrightarrow> quiet tr v"
  using readByte_quiet [of u] by (auto intro: quiet_trans dest: quiet_timeout)

lemma scanLoop_quiet_aux:
  "length (inp tr) = n \<Longrightarrow> timeout tr \<le> 0 \<Longrightarrow> qres tr (scanLoop tr)"
proof (induction n arbitrary: tr rule: less_induct)
  case (less n)
  note t = less.prems(2)
  define K where "K u \<longleftrightarrow> quiet tr u \<and> length (inp u) < n" for u
  have KD: "K u \<Longrightarrow> quiet tr u" for u by (simp add: K_def)
  have K_upd [simp]: "K (u\<lparr>canCount := c\<rparr>) = K u" "K (countGarbage u) = K u" for u c
    by (simp_all add: K_def)
  have S0: "readByte tr = (Inr b, v) \<Longrightarrow> K v" for b v
    using readByte_quiet [OF t] less.prems(1) by (auto simp: K_def dest: readByte_consumes)
  have S0e: "readByte tr = (Inl e, v) \<Longrightarrow> quiet tr v" for e v
    using readByte_quiet [OF t] by auto
  have S2: "readByte u = (r, v) \<Longrightarrow> K u \<longrightarrow> K v" for u r v
  proof
    assume a: "readByte u = (r, v)" and k: "K u"
    have "quiet u v" using readByte_quiet [of u] quiet_timeout [OF KD [OF k] t] a by simp
    with k show "K v" by (auto simp: K_def quiet_def)
  qed
  have S3: "(if c then readByte u else (Inr r0, u)) = (r, v) \<Longrightarrow> K u \<longrightarrow> K v"
    for c u r0 r v
    using S2 by (auto split: if_splits)
  have IH: "K u \<Longrightarrow> qres tr (scanLoop u)" for u
  proof -
    assume k: "K u"
    then have "qres u (scanLoop u)"
      using less.IH [of "length (inp u)" u] quiet_timeout [OF KD [OF k] t] by (simp add: K_def)
    with k show ?thesis unfolding qres_def K_def by (blast intro: quiet_trans)
  qed
  obtain r1 tr1 where a: "readByte tr = (r1, tr1)" by (cases "readByte tr")
  show ?case
  proof (cases r1)
    case (Inl e)
    with a S0e show ?thesis by (simp add: scanLoop.simps [of tr] qres_def)
  next
    case (Inr b1)
    have k1: "K tr1" using S0 a Inr by simp
    show ?thesis
      apply (subst scanLoop.simps)
      apply (simp only: a Inr prod.case sum.case Let_def)
      apply (intro qres_bind qres_if qres_leaf)
      apply (auto intro!: IH KD dest!: S2 S3 simp: k1)
      done
  qed
qed


lemma scanForPad_quiet: "timeout tr \<le> 0 \<Longrightarrow> quiet tr (snd (scanForPad tr))"
  using scanLoop_quiet_aux [of "tr\<lparr>canCount := 0\<rparr>", OF refl]
  by (simp add: scanForPad_def qres_def)

lemma qres_prod:
  assumes "\<And>a b. x = (a, b) \<Longrightarrow> qres tr (g a b)"
  shows "qres tr (case x of (a, b) \<Rightarrow> g a b)"
  using assms by (cases x) simp

lemma qres_list:
  assumes "xs = [] \<Longrightarrow> qres tr a" and "\<And>y ys. xs = y # ys \<Longrightarrow> qres tr (g y ys)"
  shows "qres tr (case xs of [] \<Rightarrow> a | y # ys \<Rightarrow> g y ys)"
  using assms by (cases xs) simp_all

lemma step_quiet:
  assumes "\<And>u. timeout u \<le> 0 \<Longrightarrow> quiet u (snd (f u))" and "timeout tr \<le> 0"
  shows "f u = (r, v) \<Longrightarrow> quiet tr u \<longrightarrow> quiet tr v"
  using assms(1) [of u] assms(2) by (auto intro: quiet_trans dest: quiet_timeout)

lemma recvHexHeader_quiet: "timeout tr \<le> 0 \<Longrightarrow> quiet tr (snd (recvHexHeader tr))"
proof -
  assume t: "timeout tr \<le> 0"
  have R: "readByte u = (r, v) \<Longrightarrow> quiet tr u \<longrightarrow> quiet tr v" for u r v 
    using step_quiet [of "readByte" tr u r v] readByte_quiet t by blast
  have H: "readHexN n u = (r, v) \<Longrightarrow> quiet tr u \<longrightarrow> quiet tr v" for u r v n
    using step_quiet [of "readHexN n" tr u r v] readHexN_quiet t by blast
  have Rs: "quiet tr u \<Longrightarrow> quiet tr (snd (readByte u))" for u
    using R [of u] by (cases "readByte u") simp
  have "qres tr (recvHexHeader tr)"
    apply (simp only: recvHexHeader_def Let_def)
    apply (intro qres_bind qres_if qres_leaf qres_list)
    apply (auto dest!: R H intro!: Rs)
    done
  then show ?thesis by (simp add: qres_def)
qed

lemma recvBinHeader_quiet: "timeout tr \<le> 0 \<Longrightarrow> quiet tr (snd (recvBinHeader c tr))"
proof -
  assume t: "timeout tr \<le> 0"
  have Z: "zdlReadN n msg fe u = (r, v) \<Longrightarrow> quiet tr u \<longrightarrow> quiet tr v" for u r v n msg fe
    using step_quiet [of "zdlReadN n msg fe" tr u r v] zdlReadN_quiet t by blast
  have "qres tr (recvBinHeader c tr)"
    apply (simp only: recvBinHeader_def Let_def)
    apply (intro qres_bind qres_if qres_leaf)
    apply (auto dest!: Z)
    done
  then show ?thesis by (simp add: qres_def)
qed

lemma recvHeader_quiet: "timeout tr \<le> 0 \<Longrightarrow> quiet tr (snd (recvHeader tr))"
proof -
  assume t: "timeout tr \<le> 0"
  have S: "scanForPad u = (r, v) \<Longrightarrow> quiet tr u \<longrightarrow> quiet tr v" for u r v 
    using step_quiet [of "scanForPad" tr u r v] scanForPad_quiet t by blast
  have X: "recvHexHeader u = (r, v) \<Longrightarrow> quiet tr u \<longrightarrow> quiet tr v" for u r v 
    using step_quiet [of "recvHexHeader" tr u r v] recvHexHeader_quiet t by blast
  have B: "recvBinHeader c u = (r, v) \<Longrightarrow> quiet tr u \<longrightarrow> quiet tr v" for u r v c
    using step_quiet [of "recvBinHeader c" tr u r v] recvBinHeader_quiet t by blast
  have "qres tr (recvHeader tr)"
    apply (simp only: recvHeader_def)
    apply (intro qres_bind qres_leaf)
    apply (auto dest!: S X B split: if_splits)
    done
  then show ?thesis by (simp add: qres_def)
qed

lemma recvSubpacketCRC16_quiet_aux:
  "timeout tr0 \<le> 0 \<Longrightarrow> quiet tr0 tr \<longrightarrow> qres tr0 (recvSubpacketCRC16 data maxLen tr)"
proof (induction data maxLen tr rule: recvSubpacketCRC16.induct)
  case (1 data maxLen tr)
  note t = "1.prems"
  have Z: "zdlRead u = (r, v) \<Longrightarrow> quiet tr0 u \<longrightarrow> quiet tr0 v" for u r v 
    using step_quiet [of "zdlRead" tr0 u r v] zdlRead_quiet t by blast
  show ?case
  proof
    assume q: "quiet tr0 tr"
    show "qres tr0 (recvSubpacketCRC16 data maxLen tr)"
      apply (subst recvSubpacketCRC16.simps)
      apply (simp only: Let_def)
      apply (intro qres_bind qres_prod qres_if qres_leaf)
      using q "1.IH" [OF sym refl sym _ _ t]
      apply (auto dest!: Z)
      done
  qed
qed

lemma recvSubpacketCRC32Loop_quiet_aux:
  "timeout tr0 \<le> 0 \<Longrightarrow> quiet tr0 tr \<longrightarrow> qres tr0 (recvSubpacketCRC32Loop data maxLen tr)"
proof (induction data maxLen tr rule: recvSubpacketCRC32Loop.induct)
  case (1 data maxLen tr)
  note t = "1.prems"
  have Z: "zdlRead u = (r, v) \<Longrightarrow> quiet tr0 u \<longrightarrow> quiet tr0 v" for u r v 
    using step_quiet [of "zdlRead" tr0 u r v] zdlRead_quiet t by blast
  have ZN: "zdlReadN n msg fe u = (r, v) \<Longrightarrow> quiet tr0 u \<longrightarrow> quiet tr0 v" for u r v n msg fe
    using step_quiet [of "zdlReadN n msg fe" tr0 u r v] zdlReadN_quiet t by blast
  show ?case
  proof
    assume q: "quiet tr0 tr"
    show "qres tr0 (recvSubpacketCRC32Loop data maxLen tr)"
      apply (subst recvSubpacketCRC32Loop.simps)
      apply (simp only: Let_def)
      apply (intro qres_bind qres_prod qres_if qres_leaf)
      using q "1.IH" [OF sym refl sym _ _ t]
      apply (auto dest!: Z ZN)
      done
  qed
qed

lemma recvSubpacket_quiet:
  "timeout tr \<le> 0 \<Longrightarrow> quiet tr (snd (recvSubpacket c maxLen tr))"
  using recvSubpacketCRC16_quiet_aux [of tr tr "[]" maxLen]
    recvSubpacketCRC32Loop_quiet_aux [of tr tr "[]" maxLen]
  by (simp add: recvSubpacket_def recvSubpacketCRC32_def qres_def)


lemma defaults_RecvTimeout: "RecvTimeout (defaults c) = max 0 (RecvTimeout c)"
  by (simp add: defaults_def Let_def)

lemma NewSession_timeout:
  "timeout (s_tr (NewSession t dl h cfg0)) = RecvTimeout (cfg (NewSession t dl h cfg0))"
  by (simp add: NewSession_def Let_def newTransportReader_def)

text \<open>
  C10. With a nil \<^verbatim>\<open>Config\<close> the session's \<open>RecvTimeout\<close> is 10 seconds. With a
  \<^verbatim>\<open>Config\<close> given it is the caller's value, or 0 when that is negative, and the
  reader's timeout is the same number; so a \<open>RecvTimeout\<close> of 0 or less leaves the
  reader with timeout 0. A reader with timeout 0 never calls \<^verbatim>\<open>SetReadDeadline\<close>:
  \<open>readByte\<close>, \<open>recvHeader\<close> and \<open>recvSubpacket\<close> leave the call count and the
  timeout as they were, and \<open>clearDeadline\<close> does nothing.
\<close>

theorem recv_timeout_default:
  "RecvTimeout (cfg (NewSession t dl h None)) = 10 * Second
   \<and> timeout (s_tr (NewSession t dl h None)) = 10 * Second
   \<and> RecvTimeout (cfg (NewSession t dl h (Some c))) = max 0 (RecvTimeout c)
   \<and> timeout (s_tr (NewSession t dl h (Some c))) = max 0 (RecvTimeout c)
   \<and> (RecvTimeout c \<le> 0 \<longrightarrow> timeout (s_tr (NewSession t dl h (Some c))) = 0)
   \<and> (timeout r = 0 \<longrightarrow>
        clearDeadline r = r
        \<and> deadlineCalls (snd (readByte r)) = deadlineCalls r
        \<and> timeout (snd (readByte r)) = 0
        \<and> deadlineCalls (snd (recvHeader r)) = deadlineCalls r
        \<and> timeout (snd (recvHeader r)) = 0
        \<and> deadlineCalls (snd (recvSubpacket crc32 maxLen r)) = deadlineCalls r
        \<and> timeout (snd (recvSubpacket crc32 maxLen r)) = 0)"
proof -
  have n: "RecvTimeout (cfg (NewSession t dl h None)) = 10 * Second"
    by (simp add: NewSession_def Let_def defaults_def zeroConfig_def)
  have s: "RecvTimeout (cfg (NewSession t dl h (Some c))) = max 0 (RecvTimeout c)"
    by (simp add: NewSession_def Let_def defaults_RecvTimeout)
  have q: "clearDeadline r = r
        \<and> deadlineCalls (snd (readByte r)) = deadlineCalls r
        \<and> timeout (snd (readByte r)) = 0
        \<and> deadlineCalls (snd (recvHeader r)) = deadlineCalls r
        \<and> timeout (snd (recvHeader r)) = 0
        \<and> deadlineCalls (snd (recvSubpacket crc32 maxLen r)) = deadlineCalls r
        \<and> timeout (snd (recvSubpacket crc32 maxLen r)) = 0" if z: "timeout r = 0"
  proof -
    have le: "timeout r \<le> 0" using z by simp
    show ?thesis
      using readByte_quiet [OF le] recvHeader_quiet [OF le]
        recvSubpacket_quiet [OF le, of crc32 maxLen] z
      by (simp add: quiet_def clearDeadline_def)
  qed
  show ?thesis
    using n s q by (simp add: NewSession_timeout)
qed

theorem recv_timeout_default_witness:
  "RecvTimeout zeroConfig \<le> 0
   \<and> timeout (s_tr (NewSession [ZPAD, ZPAD, ZDLE, ZHEX] True \<lparr>offers = [], progress = []\<rparr>
                  (Some zeroConfig))) = 0
   \<and> deadlineCalls (snd (recvHeader
        (s_tr (NewSession [ZPAD, ZPAD, ZDLE, ZHEX] True \<lparr>offers = [], progress = []\<rparr>
                 (Some zeroConfig))))) = 0
   \<and> timeout (s_tr (NewSession [ZPAD, ZPAD, ZDLE, ZHEX] True \<lparr>offers = [], progress = []\<rparr>
                  None)) = 10000000000"
  using recv_timeout_default [where c = zeroConfig and t = "[ZPAD, ZPAD, ZDLE, ZHEX]"
      and dl = True and h = "\<lparr>offers = [], progress = []\<rparr>"
      and r = "s_tr (NewSession [ZPAD, ZPAD, ZDLE, ZHEX] True \<lparr>offers = [], progress = []\<rparr>
                 (Some zeroConfig))"]
  by (simp add: zeroConfig_def NewSession_def Let_def defaults_def newTransportReader_def)

section \<open>Parsing file information\<close>

lemma nullIndex_None: "nullIndex data = None \<longleftrightarrow> 0 \<notin> set data"
  by (induction data) auto

lemma nullIndex_Some:
  "nullIndex data = Some i \<Longrightarrow>
     take i data = takeWhile (\<lambda>b. b \<noteq> 0) data
     \<and> drop (i + 1) data = tl (dropWhile (\<lambda>b. b \<noteq> 0) data)"
  by (induction data arbitrary: i) (auto split: if_splits)

lemma Fields_trimNuls_empty: "Fields [] = []"
  by (simp add: Fields_def)

text \<open>
  C9. \<open>parseFileInfo\<close> fails exactly when the input has no NUL octet. Otherwise it
  succeeds, the name is the octets before the first NUL, and each metadata field
  that is absent or that its parser rejects leaves its component at the zero
  value: size, modification time, mode, files remaining, bytes remaining.
\<close>

theorem parseFileInfo_errors:
  "((\<exists>e. parseFileInfo data = Inl e) \<longleftrightarrow> 0 \<notin> set data)
   \<and> (0 \<in> set data \<longrightarrow>
        (\<exists>info. parseFileInfo data = Inr info
           \<and> Name info = takeWhile (\<lambda>b. b \<noteq> 0) data
           \<and> (let fs = Fields (trimNuls (tl (dropWhile (\<lambda>b. b \<noteq> 0) data)))
              in ((length fs = 0 \<or> ParseInt (fs ! 0) 10 64 = None) \<longrightarrow> Size info = 0)
               \<and> ((length fs \<le> 1 \<or> ParseInt (fs ! 1) 8 64 = None) \<longrightarrow> ModTime info = None)
               \<and> ((length fs \<le> 2 \<or> ParseUint (fs ! 2) 8 32 = None) \<longrightarrow> Mode info = 0)
               \<and> ((length fs \<le> 4 \<or> Atoi (fs ! 4) = None) \<longrightarrow> FilesRemaining info = 0)
               \<and> ((length fs \<le> 5 \<or> ParseInt (fs ! 5) 10 64 = None)
                    \<longrightarrow> BytesRemaining info = 0))))"
proof (cases "nullIndex data")
  case None
  then show ?thesis
    using nullIndex_None [of data] by (simp add: parseFileInfo_def)
next
  case (Some i)
  then have m: "0 \<in> set data" using nullIndex_None [of data] by auto
  note e = nullIndex_Some [OF Some]
  show ?thesis
    using m Some e
    by (auto simp: parseFileInfo_def Let_def zeroFileInfo_def Fields_trimNuls_empty
             split: option.splits)
qed


lemmas parse_eval =
  parseFileInfo_def Let_def zeroFileInfo_def trimNuls_def Fields_def spaceLen_def
  asciiSpace_def ParseInt_def ParseUint_def Atoi_def digitVal_def

lemma parseFileInfo_example:
  "parseFileInfo [0x66, 0, 0x34, 0x32, 0x20, 0x31, 0x37, 0x20, 0x36, 0x34, 0x34, 0]
     = Inr \<lparr>Name = [0x66], Size = 42, ModTime = Some 15, Mode = 420, FilesRemaining = 0,
            BytesRemaining = 0\<rparr>"
  by (simp add: parse_eval)

theorem parseFileInfo_errors_witness:
  "0 \<in> set [0x61, 0x2e, 0x62, 0, 0x31, 0x78, 0x20, 0x39, 0x20, 0x38, 0x20, 0x30, 0x20,
             0x7a, 0x20, 0x2d, 0 :: byte]
   \<and> ParseInt [0x31, 0x78] 10 64 = None
   \<and> parseFileInfo [0x61, 0x2e, 0x62, 0, 0x31, 0x78, 0x20, 0x39, 0x20, 0x38, 0x20, 0x30,
                     0x20, 0x7a, 0x20, 0x2d, 0]
       = Inr \<lparr>Name = [0x61, 0x2e, 0x62], Size = 0, ModTime = None, Mode = 0,
              FilesRemaining = 0, BytesRemaining = 0\<rparr>"
  using parseFileInfo_errors [of "[0x61, 0x2e, 0x62, 0, 0x31, 0x78, 0x20, 0x39, 0x20, 0x38,
      0x20, 0x30, 0x20, 0x7a, 0x20, 0x2d, 0]"]
  by (simp add: parse_eval)

section \<open>Dispatch on the end type\<close>





section \<open>The sender's per-file state\<close>

lemma Position_nonneg: "0 \<le> Position h"
  by (simp add: Position_def)

definition offerA :: FileOffer where
  "offerA = \<lparr>FileOffer.Name = [0x61], FileOffer.Size = 2048, FileOffer.ModTime = None,
              FileOffer.Mode = 0,
              Reader = \<lparr>content = replicate 2048 0x55, rpos = 1024, seekable = True\<rparr>\<rparr>"

definition offerB :: FileOffer where
  "offerB = \<lparr>FileOffer.Name = [0x62], FileOffer.Size = 3, FileOffer.ModTime = None,
              FileOffer.Mode = 0,
              Reader = \<lparr>content = [1, 2, 3], rpos = 0, seekable = True\<rparr>\<rparr>"

text \<open>
  A sender in the Data state of a first file, with a ZRPOS hex header for position
  512 waiting on the reverse channel and a second file to offer.
\<close>

definition senderA :: senderVars where
  "senderA = initSenderVars\<lparr>state := stxData, curOffer := Some offerA, fileOffset := 1024,
                             bytesSent := 1024, goodBlocks := 4\<rparr>"

definition sessionA :: Session where
  "sessionA = NewSession [0x2a, 0x2a, 0x18, 0x42, 0x30, 0x39, 0x30, 0x30, 0x30, 0x32, 0x30, 0x30, 0x30, 0x30,
          0x63, 0x36, 0x31, 0x63, 0x0d, 0x0a, 0x11]
       False \<lparr>offers = [offerB], progress = []\<rparr> (Some zeroConfig)"

lemma readHexN_7: "readHexN 7 = readHexN (Suc (Suc (Suc (Suc (Suc (Suc (Suc 0)))))))"
  by (simp add: eval_nat_numeral)

lemmas tx_eval = readHexN_7 runSender_stxData_reverse_def runSender_stxNextFile_def senderA_def
  sessionA_def offerA_def offerB_def initSenderVars_def NewSession_def defaults_def
  zeroConfig_def NextFile_def seekFile_def peekForZPAD_def recvHeader_def recvHexHeader_def
  readHex_def hexVal_def resetGarbage_def Position_def le_uint32_def crc16Verify_def
  crc16Update_def crc16Step_def crc16Table_def crc16Shift_def zeroFileInfo_def

lemma senderA_zrpos:
  "runSender_stxData_reverse senderA 1024 sessionA =
     (None,
      senderA\<lparr>curOffer := Some (offerA\<lparr>Reader := (Reader offerA)\<lparr>rpos := 512\<rparr>\<rparr>),
                fileOffset := 512, bytesSent := 512, blockSize := 64, goodBlocks := 0,
                unreliable := True, zcrcwNext := True, zcrcwRetries := 0, state := stxData\<rparr>,
      1024, True, sessionA\<lparr>s_tr := (s_tr sessionA)\<lparr>inp := []\<rparr>\<rparr>)"
  by (simp add: tx_eval rd_eval signed_divide_int_def)

text \<open>
  C4 (amended). When \<^verbatim>\<open>case stxNextFile\<close> obtains an offer from the handler it sets
  the file offset, the bytes sent, the retry count, the good-block counter and the
  ZCRCW retry count to 0 and the zcrcw-next flag to false, and goes to
  \<open>stxFileInfo\<close>, where ZFILE is sent. The block size, good-needed and the
  unreliable flag are left as they are: 256, 8 and false are their values when the
  loop is entered, and neither this case, nor the reverse-channel check, nor the
  block size adaptation ever changes good-needed.
\<close>

theorem nextfile_resets:
  "blockSize initSenderVars = 256 \<and> goodNeeded initSenderVars = 8
   \<and> \<not> unreliable initSenderVars
   \<and> goodNeeded (fst (runSender_stxNextFile v s)) = goodNeeded v
   \<and> goodNeeded (fst (snd (runSender_stxData_reverse v lastAck s))) = goodNeeded v
   \<and> goodNeeded (runSender_adapt v s) = goodNeeded v
   \<and> (NextFile (handler s) = (Some offer, h) \<longrightarrow>
        (let v' = fst (runSender_stxNextFile v s)
         in fileOffset v' = 0 \<and> bytesSent v' = 0 \<and> retries v' = 0 \<and> goodBlocks v' = 0
            \<and> \<not> zcrcwNext v' \<and> zcrcwRetries v' = 0
            \<and> state v' = stxFileInfo \<and> curOffer v' = Some offer
            \<and> blockSize v' = blockSize v \<and> goodNeeded v' = goodNeeded v
            \<and> unreliable v' = unreliable v
            \<and> handler (snd (runSender_stxNextFile v s)) = h))"
proof -
  have a: "goodNeeded (fst (runSender_stxNextFile v s)) = goodNeeded v"
    by (simp add: runSender_stxNextFile_def split: prod.splits option.splits)
  have b: "goodNeeded (fst (snd (runSender_stxData_reverse v lastAck s))) = goodNeeded v"
    by (simp add: runSender_stxData_reverse_def Let_def
             split: prod.splits option.splits sum.splits)
  have c: "goodNeeded (runSender_adapt v s) = goodNeeded v"
    by (simp add: runSender_adapt_def Let_def)
  show ?thesis
    using a b c by (simp add: initSenderVars_def runSender_stxNextFile_def Let_def)
qed

theorem nextfile_resets_witness:
  "NextFile (handler sessionA) = (Some offerB, \<lparr>offers = [], progress = []\<rparr>)
   \<and> fileOffset (fst (runSender_stxNextFile senderA sessionA)) = 0
   \<and> bytesSent (fst (runSender_stxNextFile senderA sessionA)) = 0
   \<and> goodBlocks (fst (runSender_stxNextFile senderA sessionA)) = 0
   \<and> curOffer (fst (runSender_stxNextFile senderA sessionA)) = Some offerB
   \<and> blockSize (fst (runSender_stxNextFile senderA sessionA)) = 256"
  using nextfile_resets [where v = senderA and s = sessionA and offer = offerB
      and h = "\<lparr>offers = [], progress = []\<rparr>"]
  by (simp add: sessionA_def senderA_def NewSession_def NextFile_def Let_def
        initSenderVars_def)

theorem nextfile_blocksize_counterexample:
  "blockSize (fst (runSender_stxNextFile
                     (fst (snd (runSender_stxData_reverse senderA 1024 sessionA)))
                     (snd (snd (snd (snd (runSender_stxData_reverse senderA 1024 sessionA)))))))
     = 64
   \<and> unreliable (fst (runSender_stxNextFile
                     (fst (snd (runSender_stxData_reverse senderA 1024 sessionA)))
                     (snd (snd (snd (snd (runSender_stxData_reverse senderA 1024 sessionA)))))))"
  by (simp add: senderA_zrpos)
     (simp add: runSender_stxNextFile_def sessionA_def NewSession_def NextFile_def Let_def)

section \<open>ZRPOS while sending data\<close>

text \<open>
  C5 (amended). When the reverse-channel check of the Data state receives a ZRPOS
  header and the reader of the current file can seek, the reader is set to the
  ZRPOS position, the file offset and the bytes sent become that position, the
  block size becomes a quarter of its value (Go's truncating division), or 32 if
  that is less, the good-block counter becomes 0, the unreliable flag is set, the
  zcrcw-next flag is set and its retry count cleared, and the inner loop is left
  with the state still \<open>stxData\<close>. From there the next subpacket gets the
  end type ZCRCW, the block size adaptation needs 16 good blocks (good-needed
  itself is not changed), and the head of the Data state sends a ZDATA header with
  the new position. When the reader cannot seek, the check returns the error of
  \<open>seekFile\<close> and changes none of these variables.
\<close>

theorem zrpos_in_data:
  assumes pk: "peekForZPAD (s_tr s)"
    and rh: "recvHeader (s_tr s) = (Inr hdr, tra)"
    and ty: "Type hdr = ZRPOS"
    and co: "curOffer v = Some offer"
  shows
    "(seekable (Reader offer) \<longrightarrow>
       (let v' = v\<lparr>curOffer := Some (offer\<lparr>Reader := (Reader offer)\<lparr>rpos := Position hdr\<rparr>\<rparr>),
                    fileOffset := Position hdr, bytesSent := Position hdr,
                    blockSize := max (blockSize v sdiv 4) 32, goodBlocks := 0,
                    unreliable := True, zcrcwNext := True, zcrcwRetries := 0,
                    state := stxData\<rparr>;
            s' = s\<lparr>s_tr := tra\<rparr>
        in runSender_stxData_reverse v lastAck s = (None, v', lastAck, True, s')
           \<and> (0 \<le> blockSize v \<longrightarrow> blockSize v' = max (blockSize v div 4) 32)
           \<and> runSender_endType v' atEOF canFDX n = ZCRCW
           \<and> goodNeeded v' = goodNeeded v
           \<and> runSender_adapt (v'\<lparr>goodBlocks := g\<rparr>) s' =
               (if 16 \<le> g \<and> blockSize v' < MaxBlockSize (cfg s)
                then v'\<lparr>blockSize := min (blockSize v' * 2) (MaxBlockSize (cfg s)),
                        goodBlocks := 0\<rparr>
                else v'\<lparr>goodBlocks := g\<rparr>)
           \<and> fst (runSender_stxData_head v' s') =
               s'\<lparr>s_tw := sendBinHeaderWithZnulls (Znulls (cfg s)) (useCRC32 s)
                               (makePosHeader ZDATA (Position hdr)) (s_tw s)\<rparr>))
     \<and> (\<not> seekable (Reader offer) \<longrightarrow>
          runSender_stxData_reverse v lastAck s
            = (Some ErrNotSeekable, v, lastAck, False, s\<lparr>s_tr := tra\<rparr>))"
proof (intro conjI impI)
  assume sk: "\<not> seekable (Reader offer)"
  have v: "v\<lparr>curOffer := Some offer\<rparr> = v" using co by simp
  show "runSender_stxData_reverse v lastAck s
            = (Some ErrNotSeekable, v, lastAck, False, s\<lparr>s_tr := tra\<rparr>)"
    using sk by (simp add: runSender_stxData_reverse_def pk rh ty co seekFile_def Let_def v)
next
  assume sk: "seekable (Reader offer)"
  define v' where "v' = v\<lparr>curOffer := Some (offer\<lparr>Reader := (Reader offer)\<lparr>rpos := Position hdr\<rparr>\<rparr>),
                    fileOffset := Position hdr, bytesSent := Position hdr,
                    blockSize := max (blockSize v sdiv 4) 32, goodBlocks := 0,
                    unreliable := True, zcrcwNext := True, zcrcwRetries := 0,
                    state := stxData\<rparr>"
  define s' where "s' = s\<lparr>s_tr := tra\<rparr>"
  have p: "\<not> Position hdr < 0" using Position_nonneg [of hdr] by simp
  have a: "runSender_stxData_reverse v lastAck s = (None, v', lastAck, True, s')"
    using sk p
    by (simp add: runSender_stxData_reverse_def pk rh ty co seekFile_def Let_def v'_def s'_def)
  have b: "0 \<le> blockSize v \<longrightarrow> blockSize v' = max (blockSize v div 4) 32"
    by (simp add: v'_def signed_divide_int_def sgn_if)
  have c: "runSender_endType v' atEOF canFDX n = ZCRCW"
    by (simp add: runSender_endType_def v'_def)
  have d: "goodNeeded v' = goodNeeded v" by (simp add: v'_def)
  have e: "runSender_adapt (v'\<lparr>goodBlocks := g\<rparr>) s' =
               (if 16 \<le> g \<and> blockSize v' < MaxBlockSize (cfg s)
                then v'\<lparr>blockSize := min (blockSize v' * 2) (MaxBlockSize (cfg s)),
                        goodBlocks := 0\<rparr>
                else v'\<lparr>goodBlocks := g\<rparr>)"
    by (simp add: runSender_adapt_def v'_def s'_def Let_def min_def)
  have f: "fst (runSender_stxData_head v' s') =
               s'\<lparr>s_tw := sendBinHeaderWithZnulls (Znulls (cfg s)) (useCRC32 s)
                               (makePosHeader ZDATA (Position hdr)) (s_tw s)\<rparr>"
    by (simp add: runSender_stxData_head_def v'_def s'_def)
  show "let v' = v\<lparr>curOffer := Some (offer\<lparr>Reader := (Reader offer)\<lparr>rpos := Position hdr\<rparr>\<rparr>),
                    fileOffset := Position hdr, bytesSent := Position hdr,
                    blockSize := max (blockSize v sdiv 4) 32, goodBlocks := 0,
                    unreliable := True, zcrcwNext := True, zcrcwRetries := 0,
                    state := stxData\<rparr>;
            s' = s\<lparr>s_tr := tra\<rparr>
        in runSender_stxData_reverse v lastAck s = (None, v', lastAck, True, s')
           \<and> (0 \<le> blockSize v \<longrightarrow> blockSize v' = max (blockSize v div 4) 32)
           \<and> runSender_endType v' atEOF canFDX n = ZCRCW
           \<and> goodNeeded v' = goodNeeded v
           \<and> runSender_adapt (v'\<lparr>goodBlocks := g\<rparr>) s' =
               (if 16 \<le> g \<and> blockSize v' < MaxBlockSize (cfg s)
                then v'\<lparr>blockSize := min (blockSize v' * 2) (MaxBlockSize (cfg s)),
                        goodBlocks := 0\<rparr>
                else v'\<lparr>goodBlocks := g\<rparr>)
           \<and> fst (runSender_stxData_head v' s') =
               s'\<lparr>s_tw := sendBinHeaderWithZnulls (Znulls (cfg s)) (useCRC32 s)
                               (makePosHeader ZDATA (Position hdr)) (s_tw s)\<rparr>"
    unfolding Let_def v'_def [symmetric] s'_def [symmetric]
    using a b c d e f by blast
qed

lemma sessionA_header:
  "peekForZPAD (s_tr sessionA)
   \<and> recvHeader (s_tr sessionA) =
       (Inr \<lparr>Encoding = ZHEX, Type = ZRPOS, Data = \<lparr>d0 = 0, d1 = 2, d2 = 0, d3 = 0\<rparr>\<rparr>,
        (s_tr sessionA)\<lparr>inp := []\<rparr>)
   \<and> Position \<lparr>Encoding = ZHEX, Type = ZRPOS, Data = \<lparr>d0 = 0, d1 = 2, d2 = 0, d3 = 0\<rparr>\<rparr> = 512"
  by (simp add: tx_eval rd_eval)

theorem zrpos_in_data_witness:
  "peekForZPAD (s_tr sessionA)
   \<and> curOffer senderA = Some offerA \<and> seekable (Reader offerA)
   \<and> runSender_stxData_reverse senderA 1024 sessionA =
     (None,
      senderA\<lparr>curOffer := Some (offerA\<lparr>Reader := (Reader offerA)\<lparr>rpos := 512\<rparr>\<rparr>),
                fileOffset := 512, bytesSent := 512, blockSize := 64, goodBlocks := 0,
                unreliable := True, zcrcwNext := True, zcrcwRetries := 0, state := stxData\<rparr>,
      1024, True, sessionA\<lparr>s_tr := (s_tr sessionA)\<lparr>inp := []\<rparr>\<rparr>)"
  using zrpos_in_data [where s = sessionA and v = senderA and offer = offerA
      and hdr = "\<lparr>Encoding = ZHEX, Type = ZRPOS, Data = \<lparr>d0 = 0, d1 = 2, d2 = 0, d3 = 0\<rparr>\<rparr>"
      and tra = "(s_tr sessionA)\<lparr>inp := []\<rparr>" and lastAck = 1024]
    sessionA_header
  by (simp add: senderA_def offerA_def initSenderVars_def Let_def signed_divide_int_def)

theorem zrpos_quarter_counterexample:
  "blockSize senderA = 256
   \<and> blockSize (fst (snd (runSender_stxData_reverse senderA 1024 sessionA))) = 64
   \<and> runSender_stxData_reverse
        (senderA\<lparr>curOffer := Some (offerA\<lparr>Reader := (Reader offerA)\<lparr>seekable := False\<rparr>\<rparr>)\<rparr>)
        1024 sessionA
      = (Some ErrNotSeekable,
         senderA\<lparr>curOffer := Some (offerA\<lparr>Reader := (Reader offerA)\<lparr>seekable := False\<rparr>\<rparr>)\<rparr>,
         1024, False, sessionA\<lparr>s_tr := (s_tr sessionA)\<lparr>inp := []\<rparr>\<rparr>)"
  by (simp add: senderA_zrpos)
     (simp add: tx_eval rd_eval)

end
